theory Spec2Isabelle
  imports Complex_Main "HOL-Library.Multiset" "HOL-Library.Product_Lexorder"
begin

section \<open>RFM segmentation and cohort retention of the Steam dashboard\<close>

text \<open>
  The dashboard script \<^verbatim>\<open>steam_dashboard.py\<close> computes, from the filtered transaction
  table \<^verbatim>\<open>filtered_df\<close>, a per-customer RFM table (\<^verbatim>\<open>rfm_data\<close>, lines 988-1022) and a
  cohort retention matrix (\<^verbatim>\<open>cohort_retention\<close>, lines 1742-1750). Both are written with
  pandas; the operations they call are embedded here as list functions:

  \<^item> a data frame is the list of its rows, a column a list of values;
  \<^item> \<^verbatim>\<open>groupby\<close> splits the rows by key, the keys sorted ascending (pandas' default
    \<^verbatim>\<open>sort=True\<close>), and applies the aggregate to every group;
  \<^item> a Python exception is the \<open>Inl\<close> branch of a sum type;
  \<^item> a float64 is the rational number it stands for, and a float64 operation is the exact
    operation followed by rounding to the nearest float64, ties to even; infinities
    and NaN results of arithmetic are not modelled. The group sum of \<^verbatim>\<open>net_revenue\<close> and
    the retention percentages are computed so;
  \<^item> an int64 column is a column of integers, and its group sum wraps to 64 bits;
  \<^item> the quantile edges of \<^verbatim>\<open>qcut\<close> are interpolated exactly, without rounding;
  \<^item> missing values (NaN customer ids) are not modelled; a missing \<^verbatim>\<open>purchase_date\<close>
    cannot reach either computation, since the date filter that builds
    \<^verbatim>\<open>filtered_df\<close> (lines 232-241) keeps only rows whose date compares with the
    bounds.
\<close>

subsection \<open>Data model\<close>

text \<open>
  A pandas \<^verbatim>\<open>Timestamp\<close> by its fields: year, month, day and the nanoseconds since
  midnight. Timestamps compare chronologically, which on calendar dates is the
  lexicographic order of these fields.
\<close>

type_synonym timestamp = "int \<times> int \<times> int \<times> int"

text \<open>A monthly \<^verbatim>\<open>Period\<close>: year and month. Its string form \<^verbatim>\<open>YYYY-MM\<close>, which the
  script groups by, sorts as the pair does (pandas timestamps have four-digit years).\<close>

type_synonym period = "int \<times> int"

type_synonym customer = nat

record purchase =
  customer_id :: customer
  purchase_date :: timestamp
  net_revenue :: rat
  games_purchased :: int

datatype error = ValueError

subsection \<open>Segment classification (\<^verbatim>\<open>get_segment\<close>, lines 1007-1020)\<close>

text \<open>Python's \<^verbatim>\<open>int\<close> on a score label: raises \<^verbatim>\<open>ValueError\<close> on a missing label
  (NaN).\<close>

definition py_int :: "int option \<Rightarrow> error + int" where
  "py_int v = (case v of None \<Rightarrow> Inl ValueError | Some n \<Rightarrow> Inr n)"

definition get_segment :: "int option \<Rightarrow> int option \<Rightarrow> int option \<Rightarrow> error + string" where
  "get_segment r0 f0 m0 =
     (case py_int r0 of Inl e \<Rightarrow> Inl e | Inr r \<Rightarrow>
     (case py_int f0 of Inl e \<Rightarrow> Inl e | Inr f \<Rightarrow>
     (case py_int m0 of Inl e \<Rightarrow> Inl e | Inr m \<Rightarrow>
        Inr (if r \<ge> 4 \<and> f \<ge> 4 \<and> m \<ge> 4 then ''Champions''
             else if r \<ge> 3 \<and> f \<ge> 3 \<and> m \<ge> 3 then ''Loyal Customers''
             else if r \<ge> 4 \<and> f \<le> 2 then ''At Risk''
             else if r \<le> 2 \<and> f \<ge> 3 then ''Churned''
             else if r \<ge> 3 \<and> f \<le> 2 then ''Need Attention''
             else ''Potential''))))"

text \<open>
  The specification's reading: an ordered list of rules, the first rule whose condition
  holds gives the label, and \<open>Potential\<close> when none does.
\<close>

definition segment_rules :: "((int \<times> int \<times> int \<Rightarrow> bool) \<times> string) list" where
  "segment_rules =
     [(\<lambda>(r, f, m). r \<ge> 4 \<and> f \<ge> 4 \<and> m \<ge> 4, ''Champions''),
      (\<lambda>(r, f, m). r \<ge> 3 \<and> f \<ge> 3 \<and> m \<ge> 3, ''Loyal Customers''),
      (\<lambda>(r, f, m). r \<ge> 4 \<and> f \<le> 2, ''At Risk''),
      (\<lambda>(r, f, m). r \<le> 2 \<and> f \<ge> 3, ''Churned''),
      (\<lambda>(r, f, m). r \<ge> 3 \<and> f \<le> 2, ''Need Attention'')]"

fun first_match :: "(('a \<Rightarrow> bool) \<times> 'b) list \<Rightarrow> 'b \<Rightarrow> 'a \<Rightarrow> 'b" where
  "first_match [] d x = d"
| "first_match ((p, l) # rules) d x = (if p x then l else first_match rules d x)"

subsection \<open>The pandas operations the script calls\<close>

text \<open>\<^verbatim>\<open>Series.max\<close>: the largest value of a column, missing (\<open>None\<close>, pandas' NaT) on
  an empty column.\<close>

definition series_max :: "'a::linorder list \<Rightarrow> 'a option" where
  "series_max xs = (case xs of [] \<Rightarrow> None | x # ys \<Rightarrow> Some (fold max ys x))"

text \<open>\<^verbatim>\<open>unique\<close>: the distinct values in the order of their first occurrence;
  \<^verbatim>\<open>nunique\<close> counts them.\<close>

fun unique :: "'a list \<Rightarrow> 'a list" where
  "unique [] = []"
| "unique (x # xs) = x # unique (filter (\<lambda>y. y \<noteq> x) xs)"

definition nunique :: "'a list \<Rightarrow> nat" where
  "nunique xs = length (unique xs)"

text \<open>The keys of a \<^verbatim>\<open>groupby\<close>: the distinct values of the key column, sorted.\<close>

definition group_keys :: "'a::linorder list \<Rightarrow> 'a list" where
  "group_keys ks = sort (unique ks)"

text \<open>
  The int64 sum of a group (\<^verbatim>\<open>group_sum\<close> of pandas' \<^verbatim>\<open>groupby.pyx\<close> on an int64 column):
  two's complement addition, so the sum of the values wrapped to 64 bits.
\<close>

definition wrap_int64 :: "int \<Rightarrow> int" where
  "wrap_int64 x = (x + 2 ^ 63) mod 2 ^ 64 - 2 ^ 63"

definition group_sum_int64 :: "int list \<Rightarrow> int" where
  "group_sum_int64 vs = wrap_int64 (sum_list vs)"

text \<open>
  Rounding to float64: a number \<open>x\<close> with \<open>2 ^ e \<le> |x| < 2 ^ (e + 1)\<close> is rounded to the
  nearest multiple of \<open>2 ^ (e - 52)\<close>, a tie to the even multiple; below \<open>2 ^ -1022\<close>
  the spacing stays \<open>2 ^ -1074\<close>.
\<close>

function bit_length :: "int \<Rightarrow> int" where
  "bit_length n = (if n \<le> 0 then 0 else 1 + bit_length (n div 2))"
  by auto
termination
  by (relation "measure nat") auto

definition pow2 :: "int \<Rightarrow> rat" where
  "pow2 e = (if 0 \<le> e then 2 ^ nat e else 1 / 2 ^ nat (- e))"

definition float_exponent :: "rat \<Rightarrow> int" where
  "float_exponent x =
     (let (a, b) = quotient_of \<bar>x\<bar>;
          e0 = bit_length a - bit_length b
      in if pow2 e0 \<le> \<bar>x\<bar> then e0 else e0 - 1)"

definition round_half_even :: "rat \<Rightarrow> int" where
  "round_half_even x =
     (let f = \<lfloor>x\<rfloor>; d = x - of_int f
      in if d < 1 / 2 then f else if 1 / 2 < d then f + 1
         else if even f then f else f + 1)"

definition float64 :: "rat \<Rightarrow> rat" where
  "float64 x =
     (if x = 0 then 0
      else let e = max (float_exponent x) (- 1022); u = pow2 (e - 52)
           in of_int (round_half_even (x / u)) * u)"

definition fadd :: "rat \<Rightarrow> rat \<Rightarrow> rat" where
  "fadd a b = float64 (a + b)"

definition fsub :: "rat \<Rightarrow> rat \<Rightarrow> rat" where
  "fsub a b = float64 (a - b)"

definition fmul :: "rat \<Rightarrow> rat \<Rightarrow> rat" where
  "fmul a b = float64 (a * b)"

definition fdiv :: "rat \<Rightarrow> rat \<Rightarrow> rat" where
  "fdiv a b = float64 (a / b)"

text \<open>
  The float64 sum of a group (\<^verbatim>\<open>group_sum\<close> of pandas 1.3 and later): compensated
  (Kahan) summation over the rows of the group, in the order of the rows. \<open>s\<close> is the
  running sum and \<open>c\<close> the running compensation.
\<close>

fun kahan_sum :: "rat \<Rightarrow> rat \<Rightarrow> rat list \<Rightarrow> rat" where
  "kahan_sum s c [] = s"
| "kahan_sum s c (v # vs) =
     (let y = fsub v c; t = fadd s y
      in kahan_sum t (fsub (fsub t s) y) vs)"

definition group_sum_float64 :: "rat list \<Rightarrow> rat" where
  "group_sum_float64 vs = kahan_sum 0 0 vs"

text \<open>
  Days since 1970-01-01 of a date of the proleptic Gregorian calendar, and a timestamp as
  the nanoseconds since the epoch, which is the integer pandas stores. The \<^verbatim>\<open>.days\<close>
  of a difference of two timestamps is the floor of the difference in days.
\<close>

definition days_from_civil :: "int \<Rightarrow> int \<Rightarrow> int \<Rightarrow> int" where
  "days_from_civil y m d =
     (let y' = (if m \<le> 2 then y - 1 else y);
          era = y' div 400;
          yoe = y' - era * 400;
          doy = (153 * (if m > 2 then m - 3 else m + 9) + 2) div 5 + d - 1;
          doe = yoe * 365 + yoe div 4 - yoe div 100 + doy
      in era * 146097 + doe - 719468)"

definition ns_per_day :: int where
  "ns_per_day = 86400000000000"

fun ns_value :: "timestamp \<Rightarrow> int" where
  "ns_value (y, m, d, n) = days_from_civil y m d * ns_per_day + n"

definition timedelta_days :: "timestamp \<Rightarrow> timestamp \<Rightarrow> int" where
  "timedelta_days a b = (ns_value a - ns_value b) div ns_per_day"

text \<open>\<^verbatim>\<open>dt.to_period('M')\<close>: the month of a timestamp.\<close>

fun to_period :: "timestamp \<Rightarrow> period" where
  "to_period (y, m, d, n) = (y, m)"

text \<open>
  \<^verbatim>\<open>rank(method='first')\<close>: the position of each value in the ascending order of the
  column, equal values ranked in the order they stand in the column. Ranks start at 1.
\<close>

definition rank_first :: "'a::linorder list \<Rightarrow> rat list" where
  "rank_first xs =
     map (\<lambda>i. of_nat (length (filter (\<lambda>y. y < xs ! i) xs)
                       + length (filter (\<lambda>y. y = xs ! i) (take i xs)) + 1))
       [0..<length xs]"

text \<open>
  \<^verbatim>\<open>Series.quantile\<close> with linear interpolation, for \<open>0 \<le> q \<le> 1\<close>: the value at position
  \<open>q * (n - 1)\<close> of the sorted column, interpolated between its two neighbours; missing
  on an empty column.
\<close>

definition quantile :: "rat list \<Rightarrow> rat \<Rightarrow> rat option" where
  "quantile x q =
     (if x = [] then None
      else let s = sort x;
               n = length x;
               pos = q * of_nat (n - 1);
               lo = nat \<lfloor>pos\<rfloor>;
               hi = min (lo + 1) (n - 1);
               frac = pos - of_int \<lfloor>pos\<rfloor>
           in Some (s ! lo + (s ! hi - s ! lo) * frac))"

text \<open>\<^verbatim>\<open>np.linspace(0, 1, 6)\<close>: the six quantiles of a split in five.\<close>

definition quantiles :: "rat list" where
  "quantiles = map (\<lambda>i. of_nat i / 5) [0..<6]"

text \<open>\<^verbatim>\<open>dropna\<close>: the values of a column that are present.\<close>

definition dropna :: "'a option list \<Rightarrow> 'a list" where
  "dropna x = concat (map (\<lambda>v. case v of None \<Rightarrow> [] | Some a \<Rightarrow> [a]) x)"

text \<open>
  \<^verbatim>\<open>searchsorted(side='left')\<close> on the bin edges: the number of edges below the value.
  A missing edge (NaN) compares false.
\<close>

definition edge_below :: "rat \<Rightarrow> rat option \<Rightarrow> bool" where
  "edge_below a b = (case b of None \<Rightarrow> False | Some e \<Rightarrow> e < a)"

definition searchsorted :: "rat option list \<Rightarrow> rat \<Rightarrow> nat" where
  "searchsorted bins a = length (takeWhile (edge_below a) bins)"

text \<open>
  The bin number of one value in \<^verbatim>\<open>_bins_to_cuts\<close> (its array \<^verbatim>\<open>ids\<close>), with
  \<^verbatim>\<open>include_lowest=True\<close>: a value equal to the first edge goes to the first bin.
\<close>

definition cut_ids :: "rat option list \<Rightarrow> rat \<Rightarrow> nat" where
  "cut_ids bins a = (if bins \<noteq> [] \<and> hd bins = Some a then 1 else searchsorted bins a)"

text \<open>
  The label of one value: a missing value, and a value outside the edges (bin number 0
  or the number of edges), has no label (NaN).
\<close>

definition cut_label :: "rat option list \<Rightarrow> int list \<Rightarrow> rat option \<Rightarrow> int option" where
  "cut_label bins labels v =
     (case v of
        None \<Rightarrow> None
      | Some a \<Rightarrow>
          (let ids = cut_ids bins a
           in if ids = length bins \<or> ids = 0 then None else Some (labels ! (ids - 1))))"

text \<open>
  \<^verbatim>\<open>pd.qcut(x, 5, labels=labels, duplicates='drop')\<close>. The edges are the six quantiles of
  the values present; duplicate edges are dropped; then pandas raises \<^verbatim>\<open>ValueError\<close>
  when the labels are not distinct, and when their number is not the number of edges
  less one.
\<close>

definition qcut :: "rat option list \<Rightarrow> int list \<Rightarrow> error + int option list" where
  "qcut x labels =
     (let bins0 = map (quantile (dropna x)) quantiles;
          unique_bins = unique bins0;
          bins = (if length unique_bins < length bins0 \<and> length bins0 \<noteq> 2
                  then unique_bins else bins0)
      in if \<not> distinct labels then Inl ValueError
         else if int (length labels) \<noteq> int (length bins) - 1 then Inl ValueError
         else Inr (map (cut_label bins labels) x))"

subsection \<open>The RFM table (\<^verbatim>\<open>rfm_data\<close>, lines 988-1022)\<close>

text \<open>
  The columns of \<^verbatim>\<open>rfm_data\<close> after the aggregation, the renaming and the recency
  (lines 988-997). A date column can hold NaT and a difference of dates NaN, so
  \<open>last_purchase\<close> and \<open>recency\<close> are optional.
\<close>

record rfm_base =
  rfm_customer_id :: customer
  last_purchase :: "timestamp option"
  frequency :: int
  monetary :: rat
  recency :: "int option"

text \<open>The finished table: the three score columns, categorical and so possibly NaN, and
  the segment label.\<close>

record rfm_row = rfm_base +
  r_score :: "int option"
  f_score :: "int option"
  m_score :: "int option"
  rfm_segment :: string

text \<open>
  \<^verbatim>\<open>filtered_df.groupby('customer_id').agg({'purchase_date': 'max', 'games_purchased':
  'sum', 'net_revenue': 'sum'}).reset_index()\<close>, then the recency: the days from the
  customer's last purchase to the latest purchase of the whole table.
\<close>

definition rfm_table :: "purchase list \<Rightarrow> rfm_base list" where
  "rfm_table rs =
     (let global_max = series_max (map purchase_date rs)
      in map (\<lambda>k.
           let g = filter (\<lambda>r. customer_id r = k) rs;
               last = series_max (map purchase_date g)
           in \<lparr>rfm_customer_id = k,
               last_purchase = last,
               frequency = group_sum_int64 (map games_purchased g),
               monetary = group_sum_float64 (map net_revenue g),
               recency = (case (global_max, last) of
                            (Some a, Some b) \<Rightarrow> Some (timedelta_days a b)
                          | _ \<Rightarrow> None)\<rparr>)
         (group_keys (map customer_id rs)))"

text \<open>The three score columns (lines 1000-1002).\<close>

definition r_score_col :: "rfm_base list \<Rightarrow> error + int option list" where
  "r_score_col t = qcut (map (\<lambda>row. map_option of_int (recency row)) t) [5, 4, 3, 2, 1]"

definition f_score_col :: "rfm_base list \<Rightarrow> error + int option list" where
  "f_score_col t = qcut (map Some (rank_first (map frequency t))) [1, 2, 3, 4, 5]"

definition m_score_col :: "rfm_base list \<Rightarrow> error + int option list" where
  "m_score_col t = qcut (map (\<lambda>row. Some (monetary row)) t) [1, 2, 3, 4, 5]"

text \<open>\<^verbatim>\<open>rfm_data.apply(lambda x: get_segment(...), axis=1)\<close>: row by row, the first
  exception ends the computation.\<close>

fun apply_segment ::
  "(rfm_base \<times> int option \<times> int option \<times> int option) list \<Rightarrow> error + rfm_row list" where
  "apply_segment [] = Inr []"
| "apply_segment ((b, r, f, m) # rest) =
     (case get_segment r f m of
        Inl e \<Rightarrow> Inl e
      | Inr s \<Rightarrow>
          (case apply_segment rest of
             Inl e \<Rightarrow> Inl e
           | Inr rows \<Rightarrow> Inr (rfm_base.extend b (rfm_row.fields r f m s) # rows)))"

definition rfm_data :: "purchase list \<Rightarrow> error + rfm_row list" where
  "rfm_data rs =
     (let t = rfm_table rs
      in (case r_score_col t of Inl e \<Rightarrow> Inl e | Inr r \<Rightarrow>
         (case f_score_col t of Inl e \<Rightarrow> Inl e | Inr f \<Rightarrow>
         (case m_score_col t of Inl e \<Rightarrow> Inl e | Inr m \<Rightarrow>
            apply_segment (zip t (zip r (zip f m)))))))"

subsection \<open>The cohort matrix (\<^verbatim>\<open>cohort_retention\<close>, lines 1742-1750)\<close>

text \<open>
  The three columns of \<^verbatim>\<open>cohort_data\<close> that the computation reads: the customer, the
  cohort (the month of the earliest purchase of the row's customer, by
  \<^verbatim>\<open>groupby('customer_id')['purchase_date'].transform('min')\<close>) and the period (the
  month of the row). The minimum over the customer's rows is taken starting from the
  row's own date, which is one of them.
\<close>

definition cohort_data :: "purchase list \<Rightarrow> (customer \<times> period \<times> period) list" where
  "cohort_data rs =
     map (\<lambda>r. (customer_id r,
               to_period (fold min
                 (map purchase_date (filter (\<lambda>r'. customer_id r' = customer_id r) rs))
                 (purchase_date r)),
               to_period (purchase_date r)))
       rs"

text \<open>\<^verbatim>\<open>cohort_data.groupby('cohort')['customer_id'].nunique()\<close>: the size of each
  cohort, a series indexed by the cohort.\<close>

definition cohorts :: "purchase list \<Rightarrow> (period \<times> nat) list" where
  "cohorts rs =
     (let d = cohort_data rs
      in map (\<lambda>c. (c, nunique (map fst (filter (\<lambda>row. fst (snd row) = c) d))))
           (group_keys (map (\<lambda>row. fst (snd row)) d)))"

text \<open>\<^verbatim>\<open>cohort_data.groupby(['cohort', 'period'])['customer_id'].nunique()\<close>: a series
  indexed by the pairs of cohort and period that occur.\<close>

definition cohort_period_counts :: "purchase list \<Rightarrow> ((period \<times> period) \<times> nat) list" where
  "cohort_period_counts rs =
     (let d = cohort_data rs
      in map (\<lambda>cp. (cp, nunique (map fst (filter (\<lambda>row. snd row = cp) d))))
           (group_keys (map snd d)))"

text \<open>A data frame of counts with its row labels and column labels.\<close>

record 'v frame =
  index :: "period list"
  columns :: "period list"
  cells :: "'v list list"

text \<open>\<^verbatim>\<open>unstack(fill_value=0)\<close>: the second level of the index becomes the columns, and a
  pair that does not occur gets the fill value.\<close>

definition unstack :: "((period \<times> period) \<times> nat) list \<Rightarrow> nat \<Rightarrow> nat frame" where
  "unstack s fill_value =
     (let idx = group_keys (map (\<lambda>e. fst (fst e)) s);
          cols = group_keys (map (\<lambda>e. snd (fst e)) s)
      in \<lparr>index = idx, columns = cols,
          cells = map (\<lambda>c. map (\<lambda>p. case map_of s (c, p) of
                                       None \<Rightarrow> fill_value | Some n \<Rightarrow> n) cols) idx\<rparr>)"

definition cohort_retention :: "purchase list \<Rightarrow> nat frame" where
  "cohort_retention rs = unstack (cohort_period_counts rs) 0"

text \<open>
  \<^verbatim>\<open>cohort_retention.div(cohorts, axis=0) * 100\<close>: every row divided by the size of its
  cohort, in float64, then multiplied by 100. A cell is missing (\<open>None\<close>) where pandas
  has no finite number: the row label is
  not in \<^verbatim>\<open>cohorts\<close>, or the size is zero.
\<close>

definition cohort_retention_pct :: "purchase list \<Rightarrow> rat option frame" where
  "cohort_retention_pct rs =
     (let m = cohort_retention rs; sizes = map_of (cohorts rs)
      in \<lparr>index = index m, columns = columns m,
          cells = map (\<lambda>(c, row).
                    map (\<lambda>v. case sizes c of
                               None \<Rightarrow> None
                             | Some n \<Rightarrow> if n = 0 then None
                                         else Some (fmul (fdiv (of_nat v) (of_nat n)) 100)) row)
                  (zip (index m) (cells m))\<rparr>)"

text \<open>\<^verbatim>\<open>frame.loc[c, p]\<close>: the cell at a row label and a column label, \<open>None\<close> where
  pandas raises \<^verbatim>\<open>KeyError\<close>.\<close>

definition loc :: "'v frame \<Rightarrow> period \<Rightarrow> period \<Rightarrow> 'v option" where
  "loc m c p =
     (case map_of (zip (index m) (cells m)) c of
        None \<Rightarrow> None
      | Some row \<Rightarrow> map_of (zip (columns m) row) p)"

subsection \<open>Notions used in the statements\<close>

text \<open>The earliest purchase date of a customer in a table.\<close>

definition first_purchase :: "purchase list \<Rightarrow> customer \<Rightarrow> timestamp" where
  "first_purchase rs k = Min (purchase_date ` {r \<in> set rs. customer_id r = k})"

text \<open>
  An example table, the scenario of the specification: customer 1 buys in January 2024
  only, customer 2 in January and February, customer 3 in February only.
\<close>

definition scenario :: "purchase list" where
  "scenario =
     [\<lparr>customer_id = 1, purchase_date = (2024, 1, 5, 0), net_revenue = 10, games_purchased = 1\<rparr>,
      \<lparr>customer_id = 2, purchase_date = (2024, 1, 7, 0), net_revenue = 20, games_purchased = 1\<rparr>,
      \<lparr>customer_id = 2, purchase_date = (2024, 2, 3, 0), net_revenue = 5, games_purchased = 2\<rparr>,
      \<lparr>customer_id = 3, purchase_date = (2024, 2, 9, 0), net_revenue = 7, games_purchased = 1\<rparr>]"

text \<open>The rank of the row at position \<open>i\<close>, as a natural number.\<close>

definition rank_pos :: "'a::linorder list \<Rightarrow> nat \<Rightarrow> nat" where
  "rank_pos xs i = length (filter (\<lambda>y. y < xs ! i) xs)
                   + length (filter (\<lambda>y. y = xs ! i) (take i xs)) + 1"

text \<open>A second example: two customers with one purchase of one game each.\<close>

definition tied_pair :: "purchase list" where
  "tied_pair =
     [\<lparr>customer_id = 1, purchase_date = (2024, 1, 5, 0), net_revenue = 10, games_purchased = 1\<rparr>,
      \<lparr>customer_id = 2, purchase_date = (2024, 1, 8, 0), net_revenue = 20, games_purchased = 1\<rparr>]"

section \<open>Segment rules\<close>

text \<open>
  C1. For scores \<open>r\<close>, \<open>f\<close>, \<open>m\<close> between 1 and 5, \<^verbatim>\<open>get_segment\<close> returns the label of the
  first rule, in the order Champions, Loyal Customers, At Risk, Churned, Need Attention,
  whose condition the scores meet, and Potential when none does. The scores (4, 1, 1)
  give At Risk.
\<close>

theorem get_segment_first_match:
  assumes "1 \<le> r" and "r \<le> 5" and "1 \<le> f" and "f \<le> 5" and "1 \<le> m" and "m \<le> 5"
  shows "get_segment (Some r) (Some f) (Some m)
           = Inr (first_match segment_rules ''Potential'' (r, f, m))
         \<and> get_segment (Some 4) (Some 1) (Some 1) = Inr ''At Risk''"
  by (simp add: get_segment_def py_int_def segment_rules_def)

theorem get_segment_first_match_witness:
  "(1::int) \<le> 4 \<and> (4::int) \<le> 5 \<and> (1::int) \<le> 1 \<and> (1::int) \<le> 5
   \<and> get_segment (Some 4) (Some 1) (Some 1)
       = Inr (first_match segment_rules ''Potential'' (4, 1, 1))
   \<and> first_match segment_rules ''Potential'' (4, 1, 1) = ''At Risk''"
  using get_segment_first_match [of 4 1 1] by (simp add: segment_rules_def)

section \<open>Facts about the pandas operations\<close>

lemma set_unique: "set (unique xs) = set xs"
  by (induction xs rule: unique.induct) auto

lemma distinct_unique: "distinct (unique xs)"
  by (induction xs rule: unique.induct) (auto simp: set_unique)

lemma unique_distinct: "distinct xs \<Longrightarrow> unique xs = xs"
proof (induction xs)
  case Nil
  then show ?case by simp
next
  case (Cons x xs)
  then have "filter (\<lambda>y. y \<noteq> x) xs = xs"
    by (auto intro: filter_True)
  with Cons show ?case by simp
qed

lemma nunique_card: "nunique xs = card (set xs)"
  unfolding nunique_def
  using distinct_card [OF distinct_unique, of xs] by (simp add: set_unique)

lemma group_keys_set: "group_keys ks = sorted_list_of_set (set ks)"
proof -
  have "sort (unique ks) = sorted_list_of_set (set (unique ks))"
    by (rule sorted_distinct_set_unique) (simp_all add: distinct_unique)
  then show ?thesis by (simp add: group_keys_def set_unique)
qed

lemma series_max_Max: "xs \<noteq> [] \<Longrightarrow> series_max xs = Some (Max (set xs))"
proof (cases xs)
  case Nil
  assume "xs \<noteq> []"
  with Nil show ?thesis by simp
next
  case (Cons a ys)
  have "fold max ys a = Max (set (a # ys))"
    by (rule Max.set_eq_fold [symmetric])
  with Cons show ?thesis by (simp add: series_max_def)
qed

lemma series_max_Nil: "series_max [] = None"
  by (simp add: series_max_def)

lemma fold_min_Min: "fold min xs (a::'a::linorder) = Min (insert a (set xs))"
proof -
  have "fold min xs a = Min (set (a # xs))"
    by (rule Min.set_eq_fold [symmetric])
  then show ?thesis by simp
qed

lemma sum_list_filter_mset:
  "sum_list (map f (filter P xs)) = sum_mset (image_mset f (filter_mset P (mset xs)))"
proof -
  have "sum_list (map f (filter P xs)) = sum_mset (mset (map f (filter P xs)))"
    by (simp only: sum_mset_sum_list)
  then show ?thesis by simp
qed

lemma wrap_int64_id: "- (2 ^ 63) \<le> x \<Longrightarrow> x < 2 ^ 63 \<Longrightarrow> wrap_int64 x = x"
  by (simp add: wrap_int64_def)

lemma rfm_table_ids:
  "map rfm_customer_id (rfm_table rs) = sorted_list_of_set (customer_id ` set rs)"
  by (simp add: rfm_table_def Let_def group_keys_set comp_def)

lemma rfm_table_row:
  assumes "row \<in> set (rfm_table rs)"
  shows "rfm_customer_id row \<in> customer_id ` set rs
       \<and> last_purchase row
           = series_max (map purchase_date (filter (\<lambda>r. customer_id r = rfm_customer_id row) rs))
       \<and> frequency row
           = group_sum_int64
               (map games_purchased (filter (\<lambda>r. customer_id r = rfm_customer_id row) rs))
       \<and> monetary row
           = group_sum_float64
               (map net_revenue (filter (\<lambda>r. customer_id r = rfm_customer_id row) rs))
       \<and> recency row
           = (case (series_max (map purchase_date rs), last_purchase row) of
                (Some a, Some b) \<Rightarrow> Some (timedelta_days a b)
              | _ \<Rightarrow> None)"
  using assms by (auto simp: rfm_table_def Let_def group_keys_set split: option.splits)

lemma to_period_mono: "t \<le> t' \<Longrightarrow> to_period t \<le> to_period t'"
  by (cases t; cases t') (auto simp: less_eq_prod_def less_prod_def)

lemma first_purchase_attained:
  assumes "r \<in> set rs"
  shows "\<exists>r' \<in> set rs. customer_id r' = customer_id r
           \<and> purchase_date r' = first_purchase rs (customer_id r)"
proof -
  let ?S = "purchase_date ` {r' \<in> set rs. customer_id r' = customer_id r}"
  have "finite ?S" by simp
  moreover have "?S \<noteq> {}" using assms by auto
  ultimately have "Min ?S \<in> ?S" by (rule Min_in)
  then show ?thesis by (auto simp: first_purchase_def)
qed

lemma first_purchase_le:
  assumes "r \<in> set rs"
  shows "first_purchase rs (customer_id r) \<le> purchase_date r"
  unfolding first_purchase_def using assms by (intro Min_le) auto

lemma cohort_data_map:
  "cohort_data rs
     = map (\<lambda>r. (customer_id r, to_period (first_purchase rs (customer_id r)),
                 to_period (purchase_date r))) rs"
proof -
  have "fold min (map purchase_date (filter (\<lambda>r'. customer_id r' = customer_id r) rs))
          (purchase_date r) = first_purchase rs (customer_id r)"
    if "r \<in> set rs" for r
  proof -
    have "insert (purchase_date r)
            (set (map purchase_date (filter (\<lambda>r'. customer_id r' = customer_id r) rs)))
          = purchase_date ` {r' \<in> set rs. customer_id r' = customer_id r}"
      using that by auto
    then show ?thesis by (simp only: fold_min_Min first_purchase_def)
  qed
  then show ?thesis by (simp add: cohort_data_def)
qed

lemma map_of_keyed:
  "map_of (map (\<lambda>k. (k, f k)) ks) k = (if k \<in> set ks then Some (f k) else None)"
  by (induction ks) auto

lemma map_of_zip_keyed:
  "map_of (zip ks (map f ks)) k = (if k \<in> set ks then Some (f k) else None)"
  by (induction ks) auto

lemma cohorts_lookup:
  "map_of (cohorts rs) c
     = (if c \<in> (\<lambda>row. fst (snd row)) ` set (cohort_data rs)
        then Some (card (fst ` {row \<in> set (cohort_data rs). fst (snd row) = c}))
        else None)"
  by (simp add: cohorts_def Let_def map_of_keyed group_keys_set nunique_card)

lemma counts_lookup:
  "map_of (cohort_period_counts rs) cp
     = (if cp \<in> snd ` set (cohort_data rs)
        then Some (card (fst ` {row \<in> set (cohort_data rs). snd row = cp}))
        else None)"
  by (simp add: cohort_period_counts_def Let_def map_of_keyed group_keys_set nunique_card)

lemma counts_keys:
  "fst ` set (cohort_period_counts rs) = snd ` set (cohort_data rs)"
proof -
  have "fst ` set (cohort_period_counts rs) = set (map fst (cohort_period_counts rs))"
    by simp
  also have "map fst (cohort_period_counts rs) = group_keys (map snd (cohort_data rs))"
    by (simp add: cohort_period_counts_def Let_def comp_def)
  finally show ?thesis by (simp add: group_keys_set)
qed

lemma retention_index:
  "set (index (cohort_retention rs)) = (\<lambda>row. fst (snd row)) ` set (cohort_data rs)"
proof -
  have "(\<lambda>e. fst (fst e)) ` set (cohort_period_counts rs) = fst ` fst ` set (cohort_period_counts rs)"
    by (simp add: image_image)
  then show ?thesis
    by (simp add: cohort_retention_def unstack_def Let_def group_keys_set counts_keys image_image)
qed

lemma retention_columns:
  "set (columns (cohort_retention rs)) = (\<lambda>row. snd (snd row)) ` set (cohort_data rs)"
proof -
  have "(\<lambda>e. snd (fst e)) ` set (cohort_period_counts rs) = snd ` fst ` set (cohort_period_counts rs)"
    by (simp add: image_image)
  then show ?thesis
    by (simp add: cohort_retention_def unstack_def Let_def group_keys_set counts_keys image_image)
qed

lemma retention_loc:
  assumes "c \<in> set (index (cohort_retention rs))"
    and "p \<in> set (columns (cohort_retention rs))"
  shows "loc (cohort_retention rs) c p
           = Some (case map_of (cohort_period_counts rs) (c, p) of None \<Rightarrow> 0 | Some n \<Rightarrow> n)"
  using assms
  by (simp add: loc_def cohort_retention_def unstack_def Let_def map_of_zip_keyed)

lemma cohort_data_own_month:
  assumes "(k, c, p) \<in> set (cohort_data rs)"
  shows "(k, c, c) \<in> set (cohort_data rs)"
proof -
  from assms obtain r where r: "r \<in> set rs" "k = customer_id r"
      "c = to_period (first_purchase rs (customer_id r))"
    by (auto simp: cohort_data_map)
  from first_purchase_attained [OF r(1)] obtain r' where r': "r' \<in> set rs"
      "customer_id r' = customer_id r" "purchase_date r' = first_purchase rs (customer_id r)"
    by blast
  have "(customer_id r', to_period (first_purchase rs (customer_id r')),
          to_period (purchase_date r')) \<in> set (cohort_data rs)"
    using r'(1) by (simp add: cohort_data_map)
  with r r' show ?thesis by simp
qed

lemma cohort_data_period_ge:
  assumes "(k, c, p) \<in> set (cohort_data rs)"
  shows "c \<le> p"
proof -
  from assms obtain r where r: "r \<in> set rs"
      "c = to_period (first_purchase rs (customer_id r))" "p = to_period (purchase_date r)"
    by (auto simp: cohort_data_map)
  from first_purchase_le [OF r(1)] show ?thesis
    unfolding r(2,3) by (rule to_period_mono)
qed

lemma rfm_table_id_set:
  "set (map rfm_customer_id (rfm_table rs)) = customer_id ` set rs"
  by (simp only: rfm_table_ids) simp

lemma quantile_const:
  assumes "xs \<noteq> []" and "\<forall>x \<in> set xs. x = v" and "0 \<le> q" and "q \<le> 1"
  shows "quantile xs q = Some v"
proof -
  let ?n = "length xs"
  let ?pos = "q * of_nat (?n - 1)"
  have n: "0 < ?n" using assms(1) by simp
  have "?pos \<le> of_nat (?n - 1)"
    using assms(3,4) by (simp add: mult_left_le_one_le)
  then have "\<lfloor>?pos\<rfloor> \<le> int (?n - 1)"
    by (simp add: floor_le_iff)
  then have lo: "nat \<lfloor>?pos\<rfloor> < ?n" using n by linarith
  have hi: "min (nat \<lfloor>?pos\<rfloor> + 1) (?n - 1) < ?n" using n by arith
  have elem: "sort xs ! i = v" if "i < ?n" for i
  proof -
    have "sort xs ! i \<in> set (sort xs)" using that by (intro nth_mem) simp
    then show ?thesis using assms(2) by simp
  qed
  show ?thesis
    using assms(1) elem [OF lo] elem [OF hi] by (simp add: quantile_def Let_def)
qed

lemma quantiles_unit: "q \<in> set quantiles \<Longrightarrow> 0 \<le> q \<and> q \<le> 1"
  by (auto simp: quantiles_def)

lemma length_quantiles: "length quantiles = 6"
  by (simp add: quantiles_def)

lemma unique_replicate: "0 < n \<Longrightarrow> unique (replicate n x) = [x]"
  by (cases n) simp_all

lemma rank_first_const:
  assumes "\<forall>x \<in> set xs. x = v"
  shows "rank_first xs = map (\<lambda>i. of_nat (i + 1)) [0..<length xs]"
proof -
  have "length (filter (\<lambda>y. y < xs ! i) xs) = 0
      \<and> length (filter (\<lambda>y. y = xs ! i) (take i xs)) = i" if "i < length xs" for i
  proof -
    have v: "xs ! i = v" using that assms by simp
    have "filter (\<lambda>y. y < v) xs = []" using assms by (auto simp: filter_empty_conv)
    moreover have "filter (\<lambda>y. y = v) (take i xs) = take i xs"
      using assms by (auto intro!: filter_True dest: in_set_takeD)
    ultimately show ?thesis using that v by simp
  qed
  then show ?thesis by (simp add: rank_first_def)
qed

lemma series_max_set:
  "series_max xs = (if set xs = {} then None else Some (Max (set xs)))"
  using series_max_Max [of xs] by (auto simp: series_max_Nil)

lemma rfm_table_perm:
  assumes "mset rs = mset rs'"
  shows "map rfm_customer_id (rfm_table rs) = map rfm_customer_id (rfm_table rs')"
    and "map last_purchase (rfm_table rs) = map last_purchase (rfm_table rs')"
    and "map frequency (rfm_table rs) = map frequency (rfm_table rs')"
    and "map recency (rfm_table rs) = map recency (rfm_table rs')"
proof -
  from assms have s: "set rs = set rs'" by (rule mset_eq_setD)
  have sums: "group_sum_int64 (map games_purchased (filter P rs))
                = group_sum_int64 (map games_purchased (filter P rs'))" for P
    by (simp only: group_sum_int64_def sum_list_filter_mset assms)
  have maxs: "series_max (map purchase_date (filter P rs))
                = series_max (map purchase_date (filter P rs'))" for P
    by (simp add: series_max_set s)
  have gmax: "series_max (map purchase_date rs) = series_max (map purchase_date rs')"
    by (simp add: series_max_set s)
  have keys: "group_keys (map customer_id rs) = group_keys (map customer_id rs')"
    by (simp add: group_keys_set s)
  show "map rfm_customer_id (rfm_table rs) = map rfm_customer_id (rfm_table rs')"
    by (simp add: rfm_table_def Let_def comp_def keys)
  show "map last_purchase (rfm_table rs) = map last_purchase (rfm_table rs')"
    by (simp add: rfm_table_def Let_def comp_def keys maxs)
  show "map frequency (rfm_table rs) = map frequency (rfm_table rs')"
    by (simp add: rfm_table_def Let_def comp_def keys sums)
  show "map recency (rfm_table rs) = map recency (rfm_table rs')"
    by (simp add: rfm_table_def Let_def comp_def keys maxs gmax cong: option.case_cong)
qed

lemma score_cols_perm:
  assumes "mset rs = mset rs'"
  shows "r_score_col (rfm_table rs) = r_score_col (rfm_table rs')"
    and "f_score_col (rfm_table rs) = f_score_col (rfm_table rs')"
proof -
  have r: "map (\<lambda>row. map_option rat_of_int (recency row)) t
             = map (map_option rat_of_int) (map recency t)" for t :: "rfm_base list"
    by simp
  show "r_score_col (rfm_table rs) = r_score_col (rfm_table rs')"
    unfolding r_score_col_def r by (simp only: rfm_table_perm(4) [OF assms])
  show "f_score_col (rfm_table rs) = f_score_col (rfm_table rs')"
    unfolding f_score_col_def by (simp only: rfm_table_perm(3) [OF assms])
qed

lemma first_purchase_set: "set rs = set rs' \<Longrightarrow> first_purchase rs = first_purchase rs'"
  by (simp add: first_purchase_def fun_eq_iff)

lemma cohort_data_set:
  assumes "set rs = set rs'"
  shows "set (cohort_data rs) = set (cohort_data rs')"
  by (simp add: cohort_data_map first_purchase_set [OF assms] assms)

lemma cohorts_set_form:
  "cohorts rs
     = map (\<lambda>c. (c, card (fst ` {row \<in> set (cohort_data rs). fst (snd row) = c})))
         (sorted_list_of_set ((\<lambda>row. fst (snd row)) ` set (cohort_data rs)))"
  by (simp add: cohorts_def Let_def nunique_card group_keys_set)

lemma counts_set_form:
  "cohort_period_counts rs
     = map (\<lambda>cp. (cp, card (fst ` {row \<in> set (cohort_data rs). snd row = cp})))
         (sorted_list_of_set (snd ` set (cohort_data rs)))"
  by (simp add: cohort_period_counts_def Let_def nunique_card group_keys_set)

lemma cohort_engine_set:
  assumes "set rs = set rs'"
  shows "cohorts rs = cohorts rs'"
    and "cohort_retention rs = cohort_retention rs'"
    and "cohort_retention_pct rs = cohort_retention_pct rs'"
proof -
  note d = cohort_data_set [OF assms]
  show c: "cohorts rs = cohorts rs'"
    by (simp only: cohorts_set_form d)
  have "cohort_period_counts rs = cohort_period_counts rs'"
    by (simp only: counts_set_form d)
  then show m: "cohort_retention rs = cohort_retention rs'"
    by (simp only: cohort_retention_def)
  show "cohort_retention_pct rs = cohort_retention_pct rs'"
    by (simp only: cohort_retention_pct_def c m)
qed

subsection \<open>Ranks and bins are monotone\<close>

lemma rank_first_nth:
  "i < length xs \<Longrightarrow>
   rank_first xs ! i
     = of_nat (length (filter (\<lambda>y. y < xs ! i) xs)
               + length (filter (\<lambda>y. y = xs ! i) (take i xs)) + 1)"
  by (simp add: rank_first_def)

lemma length_rank_first: "length (rank_first xs) = length xs"
  by (simp add: rank_first_def)

lemma searchsorted_mono:
  assumes "u \<le> v"
  shows "searchsorted bins u \<le> searchsorted bins v"
  unfolding searchsorted_def
proof (induction bins)
  case Nil
  then show ?case by simp
next
  case (Cons e bins)
  have "edge_below u e \<Longrightarrow> edge_below v e"
    using assms by (auto simp: edge_below_def split: option.splits)
  with Cons show ?case by auto
qed

lemma searchsorted_le: "searchsorted bins u \<le> length bins"
  by (simp add: searchsorted_def length_takeWhile_le)

lemma tie_count:
  assumes "i < j" and "j < length (xs::'a list)" and "xs ! i = v"
  shows "length (filter (\<lambda>y. y = v) (take i xs)) < length (filter (\<lambda>y. y = v) (take j xs))"
proof -
  from less_imp_Suc_add [OF assms(1)] obtain d where "j = Suc (i + d)" by (rule exE)
  then have d: "j = i + Suc d" by simp
  have i: "i < length xs" using assms(1,2) by simp
  have "drop i xs = v # drop (Suc i) xs"
    using Cons_nth_drop_Suc [OF i] assms(3) by simp
  then have "0 < length (filter (\<lambda>y. y = v) (take (Suc d) (drop i xs)))"
    by simp
  moreover have "take (i + Suc d) xs = take i xs @ take (Suc d) (drop i xs)"
    by (rule take_add)
  ultimately show ?thesis
    unfolding d by simp
qed

lemma rank_first_tie:
  assumes "i < j" and "j < length xs" and "xs ! i = xs ! j"
  shows "rank_first xs ! i < rank_first xs ! j"
proof -
  have i: "i < length xs" using assms(1,2) by simp
  have "length (filter (\<lambda>y. y = xs ! j) (take i xs))
          < length (filter (\<lambda>y. y = xs ! j) (take j xs))"
    using assms by (rule tie_count)
  then show ?thesis
    using assms(2,3) i by (simp add: rank_first_nth)
qed

lemma label_nth: "1 \<le> k \<Longrightarrow> k \<le> 5 \<Longrightarrow> [1, 2, 3, 4, 5 :: int] ! (k - 1) = int k"
proof -
  assume "1 \<le> k" "k \<le> 5"
  then have "k = 1 \<or> k = 2 \<or> k = 3 \<or> k = 4 \<or> k = 5" by arith
  then show ?thesis by (auto simp: nth_Cons')
qed

lemma cut_label_ids:
  "cut_label bins labels (Some a)
     = (if cut_ids bins a = length bins \<or> cut_ids bins a = 0 then None
        else Some (labels ! (cut_ids bins a - 1)))"
  by (simp add: cut_label_def Let_def)

lemma cut_ids_le: "length bins \<noteq> 0 \<Longrightarrow> length bins \<noteq> 1 \<Longrightarrow> cut_ids bins a \<le> length bins"
  using searchsorted_le [of bins a] by (cases bins) (auto simp: cut_ids_def)

lemma cut_ids_mono:
  assumes "u \<le> v" and "cut_ids bins u \<noteq> 0" and "cut_ids bins v \<noteq> 0"
  shows "cut_ids bins u \<le> cut_ids bins v"
proof (cases "bins \<noteq> [] \<and> hd bins = Some u")
  case True
  then show ?thesis using assms(3) by (simp add: cut_ids_def)
next
  case nu: False
  show ?thesis
  proof (cases "bins \<noteq> [] \<and> hd bins = Some v")
    case True
    then obtain bs where bs: "bins = Some v # bs" by (cases bins) auto
    have "\<not> edge_below u (Some v)" using assms(1) by (simp add: edge_below_def)
    then have "searchsorted bins u = 0" by (simp add: bs searchsorted_def)
    moreover have "cut_ids bins u = searchsorted bins u"
      using nu by (auto simp: cut_ids_def)
    ultimately show ?thesis using assms(2) by simp
  next
    case False
    then have "cut_ids bins v = searchsorted bins v"
      by (auto simp: cut_ids_def)
    moreover have "cut_ids bins u = searchsorted bins u"
      using nu by (auto simp: cut_ids_def)
    ultimately show ?thesis
      using searchsorted_mono [OF assms(1), of bins] by simp
  qed
qed

lemma cut_label_mono:
  assumes "u \<le> v" and "length bins = 6"
    and "cut_label bins [1, 2, 3, 4, 5] (Some u) = Some a"
    and "cut_label bins [1, 2, 3, 4, 5] (Some v) = Some b"
  shows "a \<le> b"
proof -
  let ?iu = "cut_ids bins u" and ?iv = "cut_ids bins v"
  from assms(3) have u: "?iu \<noteq> 6" "?iu \<noteq> 0" "a = [1, 2, 3, 4, 5] ! (?iu - 1)"
    by (simp_all add: cut_label_ids assms(2) split: if_splits)
  from assms(4) have v: "?iv \<noteq> 6" "?iv \<noteq> 0" "b = [1, 2, 3, 4, 5] ! (?iv - 1)"
    by (simp_all add: cut_label_ids assms(2) split: if_splits)
  have "?iu \<le> 6" "?iv \<le> 6"
    using cut_ids_le [of bins u] cut_ids_le [of bins v] by (simp_all add: assms(2))
  with u v have ru: "1 \<le> ?iu" "?iu \<le> 5" and rv: "1 \<le> ?iv" "?iv \<le> 5" by arith+
  have "?iu \<le> ?iv" using assms(1) u(2) v(2) by (rule cut_ids_mono)
  then show ?thesis
    unfolding u(3) v(3) label_nth [OF ru] label_nth [OF rv] by simp
qed

lemma qcut_Inr:
  assumes "qcut x labels = Inr ys"
  shows "\<exists>bins. int (length labels) = int (length bins) - 1
              \<and> ys = map (cut_label bins labels) x"
proof (cases "length (unique (map (quantile (dropna x)) quantiles))
                < length (map (quantile (dropna x)) quantiles)
              \<and> length (map (quantile (dropna x)) quantiles) \<noteq> 2")
  case True
  with assms have
    "int (length labels) = int (length (unique (map (quantile (dropna x)) quantiles))) - 1
     \<and> ys = map (cut_label (unique (map (quantile (dropna x)) quantiles)) labels) x"
    by (auto simp: qcut_def Let_def split: if_splits)
  then show ?thesis by (rule exI)
next
  case False
  with assms have
    "int (length labels) = int (length (map (quantile (dropna x)) quantiles)) - 1
     \<and> ys = map (cut_label (map (quantile (dropna x)) quantiles) labels) x"
    by (auto simp: qcut_def Let_def split: if_splits)
  then show ?thesis by (rule exI)
qed

lemma get_segment_Inr: "get_segment r f m = Inr s \<Longrightarrow> f \<noteq> None"
  by (auto simp: get_segment_def py_int_def split: option.splits sum.splits)

lemma apply_segment_Inr:
  assumes "apply_segment zs = Inr t"
  shows "map (\<lambda>row. (rfm_customer_id row, frequency row, f_score row)) t
           = map (\<lambda>(b, r, f, m). (rfm_customer_id b, frequency b, f)) zs
       \<and> (\<forall>z \<in> set zs. fst (snd (snd z)) \<noteq> None)"
  using assms
proof (induction zs arbitrary: t)
  case Nil
  then show ?case by simp
next
  case (Cons z zs)
  obtain b r f m where z: "z = (b, r, f, m)" by (cases z) auto
  from Cons.prems obtain s rows where s: "get_segment r f m = Inr s"
      and rows: "apply_segment zs = Inr rows"
      and t: "t = rfm_base.extend b (rfm_row.fields r f m s) # rows"
    by (auto simp: z split: sum.splits)
  from Cons.IH [OF rows] get_segment_Inr [OF s] show ?case
    by (simp add: z t rfm_base.defs rfm_row.defs)
qed

lemma qcut_length: "qcut x labels = Inr ys \<Longrightarrow> length ys = length x"
  using qcut_Inr [of x labels ys] by auto

lemma f_score_col_Inr:
  assumes "f_score_col b = Inr f"
  shows "\<exists>bins. length bins = 6
           \<and> f = map (\<lambda>v. cut_label bins [1, 2, 3, 4, 5] (Some v)) (rank_first (map frequency b))"
proof -
  from assms qcut_Inr obtain bins where
    "int (length [1, 2, 3, 4, 5 :: int]) = int (length bins) - 1"
    "f = map (cut_label bins [1, 2, 3, 4, 5]) (map Some (rank_first (map frequency b)))"
    unfolding f_score_col_def by blast
  then have "length bins = 6
      \<and> f = map (\<lambda>v. cut_label bins [1, 2, 3, 4, 5] (Some v)) (rank_first (map frequency b))"
    by (simp add: comp_def)
  then show ?thesis by (rule exI)
qed

lemma rfm_table_ids_increasing:
  assumes "i < length (rfm_table rs)" and "j < length (rfm_table rs)"
    and "rfm_customer_id (rfm_table rs ! i) < rfm_customer_id (rfm_table rs ! j)"
  shows "i < j"
proof (rule ccontr)
  assume "\<not> i < j"
  then have ji: "j \<le> i" by simp
  have "sorted (map rfm_customer_id (rfm_table rs))"
    by (simp add: rfm_table_ids)
  from sorted_nth_mono [OF this ji] assms(1,2)
  have "rfm_customer_id (rfm_table rs ! j) \<le> rfm_customer_id (rfm_table rs ! i)"
    by simp
  with assms(3) show False by simp
qed

subsection \<open>When the scoring returns\<close>

text \<open>
  Scores that are computed are labels, so between 1 and 5; \<^verbatim>\<open>qcut\<close> with five labels
  returns exactly when the six quantile edges are distinct; and the ranks of a column
  are the numbers 1 to \<open>n\<close>, so the frequency score of two or more customers is always
  computed.
\<close>

lemma cut_ids_le_length: "cut_ids bins a \<le> length bins"
  using searchsorted_le [of bins a] by (cases bins) (auto simp: cut_ids_def)

lemma cut_label_in_labels:
  assumes "cut_label bins labels v = Some a"
    and "int (length labels) = int (length bins) - 1"
  shows "a \<in> set labels"
proof -
  from assms(1) obtain x where v: "v = Some x"
    by (cases v) (simp_all add: cut_label_def)
  from assms(1) have ids: "cut_ids bins x \<noteq> length bins" "cut_ids bins x \<noteq> 0"
      and a: "a = labels ! (cut_ids bins x - 1)"
    by (simp_all add: v cut_label_ids split: if_splits)
  from ids cut_ids_le_length [of bins x] assms(2)
  have "cut_ids bins x - 1 < length labels" by linarith
  then show ?thesis unfolding a by (rule nth_mem)
qed

lemma qcut_labels:
  assumes "qcut x labels = Inr ys" and "Some a \<in> set ys"
  shows "a \<in> set labels"
proof -
  from qcut_Inr [OF assms(1)] obtain bins where
    len: "int (length labels) = int (length bins) - 1"
    and ys: "ys = map (cut_label bins labels) x"
    by blast
  from assms(2) ys obtain v where "cut_label bins labels v = Some a"
    by auto
  then show ?thesis using len by (rule cut_label_in_labels)
qed

lemma get_segment_all_Some:
  "get_segment r f m = Inr s \<Longrightarrow> r \<noteq> None \<and> f \<noteq> None \<and> m \<noteq> None"
  by (auto simp: get_segment_def py_int_def split: option.splits sum.splits)

lemma apply_segment_scores:
  assumes "apply_segment zs = Inr t" and "row \<in> set t"
  shows "\<exists>b r f m. (b, Some r, Some f, Some m) \<in> set zs
           \<and> r_score row = Some r \<and> f_score row = Some f \<and> m_score row = Some m"
  using assms
proof (induction zs arbitrary: t)
  case Nil
  then show ?case by simp
next
  case (Cons z zs)
  obtain b r f m where z: "z = (b, r, f, m)" by (cases z) auto
  from Cons.prems(1) obtain s rows where s: "get_segment r f m = Inr s"
      and rows: "apply_segment zs = Inr rows"
      and t: "t = rfm_base.extend b (rfm_row.fields r f m s) # rows"
    by (auto simp: z split: sum.splits)
  show ?case
  proof (cases "row \<in> set rows")
    case True
    from Cons.IH [OF rows True] show ?thesis by auto
  next
    case False
    with Cons.prems(2) t have row: "row = rfm_base.extend b (rfm_row.fields r f m s)"
      by simp
    from get_segment_all_Some [OF s] obtain r' f' m' where
      "r = Some r'" "f = Some f'" "m = Some m'" by auto
    then show ?thesis
      by (auto simp: z row rfm_base.defs rfm_row.defs)
  qed
qed

lemma scores_in_range:
  assumes "rfm_data rs = Inr t" and "row \<in> set t"
  shows "\<exists>r f m. r_score row = Some r \<and> f_score row = Some f \<and> m_score row = Some m
           \<and> 1 \<le> r \<and> r \<le> 5 \<and> 1 \<le> f \<and> f \<le> 5 \<and> 1 \<le> m \<and> m \<le> 5"
proof -
  let ?b = "rfm_table rs"
  from assms(1) obtain rc fc mc where rc: "r_score_col ?b = Inr rc"
      and fc: "f_score_col ?b = Inr fc" and mc: "m_score_col ?b = Inr mc"
      and app: "apply_segment (zip ?b (zip rc (zip fc mc))) = Inr t"
    by (auto simp: rfm_data_def Let_def split: sum.splits)
  from apply_segment_scores [OF app assms(2)] obtain b r f m where
      z: "(b, Some r, Some f, Some m) \<in> set (zip ?b (zip rc (zip fc mc)))"
      and row: "r_score row = Some r" "f_score row = Some f" "m_score row = Some m"
    by blast
  from z have "(Some r, Some f, Some m) \<in> set (zip rc (zip fc mc))"
    by (rule set_zip_rightD)
  then have r: "Some r \<in> set rc" and "(Some f, Some m) \<in> set (zip fc mc)"
    by (auto dest: set_zip_leftD set_zip_rightD)
  then have f: "Some f \<in> set fc" and m: "Some m \<in> set mc"
    by (auto dest: set_zip_leftD set_zip_rightD)
  have "r \<in> set [5, 4, 3, 2, 1]"
    using rc r unfolding r_score_col_def by (rule qcut_labels)
  moreover have "f \<in> set [1, 2, 3, 4, 5]"
    using fc f unfolding f_score_col_def by (rule qcut_labels)
  moreover have "m \<in> set [1, 2, 3, 4, 5]"
    using mc m unfolding m_score_col_def by (rule qcut_labels)
  ultimately show ?thesis using row by auto
qed

lemma length_unique_less: "\<not> distinct xs \<Longrightarrow> length (unique xs) < length xs"
proof -
  assume nd: "\<not> distinct xs"
  have "length (unique xs) = card (set xs)"
    using nunique_card [of xs] by (simp add: nunique_def)
  moreover have "card (set xs) \<le> length xs" by (rule card_length)
  moreover have "card (set xs) \<noteq> length xs" using nd card_distinct by blast
  ultimately show ?thesis by simp
qed

lemma qcut_succeeds_iff:
  "(\<exists>ys. qcut x [1, 2, 3, 4, 5] = Inr ys) \<longleftrightarrow> distinct (map (quantile (dropna x)) quantiles)"
proof (cases "distinct (map (quantile (dropna x)) quantiles)")
  case True
  then have "unique (map (quantile (dropna x)) quantiles) = map (quantile (dropna x)) quantiles"
    by (rule unique_distinct)
  then show ?thesis using True by (simp add: qcut_def Let_def length_quantiles)
next
  case False
  from length_unique_less [OF this]
  have "length (unique (map (quantile (dropna x)) quantiles)) < 6"
    by (simp add: length_quantiles)
  then show ?thesis using False by (simp add: qcut_def Let_def length_quantiles)
qed

lemma rank_first_pos: "rank_first xs = map (\<lambda>i. of_nat (rank_pos xs i)) [0..<length xs]"
  by (simp add: rank_first_def rank_pos_def)

lemma count_before_less:
  assumes "i < length (xs::'a list)" and "xs ! i = v"
  shows "length (filter (\<lambda>y. y = v) (take i xs)) < length (filter (\<lambda>y. y = v) xs)"
proof -
  have "drop i xs = v # drop (Suc i) xs"
    using Cons_nth_drop_Suc [OF assms(1)] assms(2) by simp
  then have "0 < length (filter (\<lambda>y. y = v) (drop i xs))" by simp
  moreover have "filter (\<lambda>y. y = v) xs
      = filter (\<lambda>y. y = v) (take i xs) @ filter (\<lambda>y. y = v) (drop i xs)"
    by (simp only: filter_append [symmetric] append_take_drop_id)
  ultimately show ?thesis by simp
qed

lemma count_lt_eq_le_lt:
  "u < v \<Longrightarrow> length (filter (\<lambda>y. y < u) xs) + length (filter (\<lambda>y. y = u) xs)
     \<le> length (filter (\<lambda>y. y < (v::'a::linorder)) xs)"
  by (induction xs) auto

lemma count_lt_eq_le_length:
  "length (filter (\<lambda>y. y < u) xs) + length (filter (\<lambda>y. y = (u::'a::linorder)) xs) \<le> length xs"
  by (induction xs) auto

lemma rank_pos_range:
  assumes "i < length xs"
  shows "1 \<le> rank_pos xs i \<and> rank_pos xs i \<le> length xs"
  using count_before_less [OF assms refl] count_lt_eq_le_length [of "xs ! i" xs]
  by (simp add: rank_pos_def)

lemma rank_pos_less:
  assumes "i < length xs" and "xs ! i < xs ! j"
  shows "rank_pos xs i < rank_pos xs j"
  using count_before_less [OF assms(1) refl] count_lt_eq_le_lt [OF assms(2), of xs]
  by (simp add: rank_pos_def)

lemma rank_pos_tie:
  assumes "i < j" and "j < length xs" and "xs ! i = xs ! j"
  shows "rank_pos xs i < rank_pos xs j"
  using tie_count [OF assms(1,2) assms(3)] assms(3) by (simp add: rank_pos_def)

lemma rank_pos_inj: "inj_on (rank_pos xs) {..<length xs}"
proof (rule inj_onI)
  fix i j assume i: "i \<in> {..<length xs}" and j: "j \<in> {..<length xs}"
    and eq: "rank_pos xs i = rank_pos xs j"
  show "i = j"
  proof (rule ccontr)
    assume ne: "i \<noteq> j"
    consider "xs ! i < xs ! j" | "xs ! j < xs ! i" | "xs ! i = xs ! j" "i < j"
      | "xs ! i = xs ! j" "j < i"
      using ne by (metis linorder_neqE_nat not_less_iff_gr_or_eq)
    then show False
    proof cases
      case 1
      then show False using rank_pos_less [of i xs j] i eq by simp
    next
      case 2
      then show False using rank_pos_less [of j xs i] j eq by simp
    next
      case 3
      then show False using rank_pos_tie [of i j xs] j eq by simp
    next
      case 4
      then show False using rank_pos_tie [of j i xs] i eq by simp
    qed
  qed
qed

lemma rank_pos_image: "rank_pos xs ` {..<length xs} = {1..length xs}"
proof (rule card_subset_eq)
  show "finite {1..length xs}" by simp
  show "rank_pos xs ` {..<length xs} \<subseteq> {1..length xs}"
    using rank_pos_range [of _ xs] by auto
  show "card (rank_pos xs ` {..<length xs}) = card {1..length xs}"
    by (simp add: card_image [OF rank_pos_inj])
qed

lemma sort_rank_first: "sort (rank_first xs) = map of_nat [1..<Suc (length xs)]"
proof (rule sorted_distinct_set_unique)
  show "sorted (sort (rank_first xs))" by simp
  have inj: "inj_on (\<lambda>i. (of_nat (rank_pos xs i) :: rat)) {0..<length xs}"
    using rank_pos_inj [of xs] by (auto simp: inj_on_def)
  have "distinct (rank_first xs)"
    unfolding rank_first_pos by (simp add: distinct_map inj)
  then show "distinct (sort (rank_first xs))" by simp
  show "sorted (map rat_of_nat [1..<Suc (length xs)])"
    by (simp add: sorted_map del: upt_Suc)
  show "distinct (map rat_of_nat [1..<Suc (length xs)])"
    by (simp add: distinct_map inj_on_def del: upt_Suc)
  have "set (rank_first xs) = rat_of_nat ` rank_pos xs ` {..<length xs}"
    unfolding rank_first_pos by (auto simp: image_iff)
  also have "\<dots> = rat_of_nat ` {1..length xs}"
    by (simp only: rank_pos_image)
  also have "\<dots> = set (map rat_of_nat [1..<Suc (length xs)])"
    by (simp add: atLeastLessThanSuc_atLeastAtMost del: upt_Suc)
  finally show "set (sort (rank_first xs)) = set (map rat_of_nat [1..<Suc (length xs)])"
    by simp
qed

lemma sorted_ranks_nth:
  assumes "k < length xs"
  shows "sort (rank_first xs) ! k = of_nat (Suc k)"
proof -
  have "map rat_of_nat [1..<Suc (length xs)] ! k = of_nat ([1..<Suc (length xs)] ! k)"
    using assms by (intro nth_map) simp
  also have "[1..<Suc (length xs)] ! k = 1 + k"
    using assms by (intro nth_upt) simp
  finally have "map rat_of_nat [1..<Suc (length xs)] ! k = of_nat (1 + k)" .
  then show ?thesis by (simp only: sort_rank_first plus_1_eq_Suc)
qed

lemma quantile_ranks:
  assumes "xs \<noteq> []" and "0 \<le> q" and "q \<le> 1"
  shows "quantile (rank_first xs) q = Some (1 + q * of_nat (length xs - 1))"
proof -
  let ?n = "length xs"
  let ?pos = "q * rat_of_nat (?n - 1)"
  define lo where "lo = nat \<lfloor>?pos\<rfloor>"
  have n: "0 < ?n" using assms(1) by simp
  have pos0: "0 \<le> ?pos" using assms(2) by simp
  have pos1: "?pos \<le> of_nat (?n - 1)"
    using assms(2,3) by (simp add: mult_left_le_one_le)
  have fl0: "0 \<le> \<lfloor>?pos\<rfloor>" using pos0 by simp
  have fl1: "\<lfloor>?pos\<rfloor> \<le> int (?n - 1)" using pos1 by (simp add: floor_le_iff)
  have lo_int: "int lo = \<lfloor>?pos\<rfloor>" using fl0 by (simp add: lo_def)
  then have lo_rat: "rat_of_nat lo = of_int \<lfloor>?pos\<rfloor>"
    by (metis of_int_of_nat_eq)
  have lo_le: "lo \<le> ?n - 1" using fl1 lo_int by linarith
  then have lo_lt: "lo < ?n" using n by linarith
  have ne: "rank_first xs \<noteq> []" using assms(1) by (simp add: rank_first_def)
  have unfold: "quantile (rank_first xs) q
      = Some (sort (rank_first xs) ! lo
          + (sort (rank_first xs) ! (min (lo + 1) (?n - 1)) - sort (rank_first xs) ! lo)
            * (?pos - of_int \<lfloor>?pos\<rfloor>))"
    using ne by (simp add: quantile_def Let_def length_rank_first lo_def)
  show ?thesis
  proof (cases "lo + 1 \<le> ?n - 1")
    case True
    then have hi: "min (lo + 1) (?n - 1) = Suc lo" by simp
    have hi_lt: "Suc lo < ?n" using True n by linarith
    have "sort (rank_first xs) ! lo + (sort (rank_first xs) ! Suc lo - sort (rank_first xs) ! lo)
            * (?pos - of_int \<lfloor>?pos\<rfloor>)
        = 1 + ?pos"
      unfolding sorted_ranks_nth [OF lo_lt] sorted_ranks_nth [OF hi_lt]
      using lo_rat by simp
    then show ?thesis unfolding unfold hi by simp
  next
    case False
    with lo_le have lo_eq: "lo = ?n - 1" by simp
    then have hi: "min (lo + 1) (?n - 1) = lo" by simp
    have "of_int \<lfloor>?pos\<rfloor> \<le> ?pos" by simp
    with lo_rat lo_eq pos1 have pos_eq: "?pos = rat_of_nat lo" by simp
    have "sort (rank_first xs) ! lo = 1 + ?pos"
      unfolding sorted_ranks_nth [OF lo_lt] pos_eq by simp
    then show ?thesis unfolding unfold hi by simp
  qed
qed

lemma dropna_map_Some: "dropna (map Some xs) = xs"
  by (induction xs) (simp_all add: dropna_def)

lemma distinct_quantiles: "distinct quantiles"
  by (simp add: quantiles_def upt_rec)

lemma f_score_col_succeeds:
  assumes "2 \<le> length b"
  shows "\<exists>f. f_score_col b = Inr f"
proof -
  let ?fs = "map frequency b"
  have ne: "?fs \<noteq> []" using assms by auto
  have pos: "0 < rat_of_nat (length ?fs - 1)" using assms by simp
  have edges: "map (quantile (rank_first ?fs)) quantiles
      = map (\<lambda>q. Some (1 + q * of_nat (length ?fs - 1))) quantiles"
    using quantile_ranks [OF ne] quantiles_unit by (intro map_cong) auto
  have "inj (\<lambda>q. Some (1 + q * rat_of_nat (length ?fs - 1)))"
    using pos by (auto simp: inj_on_def)
  then have "distinct (map (quantile (rank_first ?fs)) quantiles)"
    unfolding edges using distinct_quantiles by (simp add: distinct_map inj_on_def)
  then show ?thesis
    unfolding f_score_col_def using qcut_succeeds_iff [of "map Some (rank_first ?fs)"]
    by (simp add: dropna_map_Some)
qed

lemma qcut_Inr_edges:
  assumes "qcut x [1, 2, 3, 4, 5] = Inr ys"
  shows "ys = map (cut_label (map (quantile (dropna x)) quantiles) [1, 2, 3, 4, 5]) x"
proof -
  from assms qcut_succeeds_iff [of x]
  have "distinct (map (quantile (dropna x)) quantiles)" by blast
  then have "unique (map (quantile (dropna x)) quantiles) = map (quantile (dropna x)) quantiles"
    by (rule unique_distinct)
  with assms show ?thesis
    by (simp add: qcut_def Let_def split: if_splits)
qed

lemma rank_edges:
  assumes "xs \<noteq> []"
  shows "map (quantile (rank_first xs)) quantiles
           = map (\<lambda>q. Some (1 + q * of_nat (length xs - 1))) quantiles"
  using quantile_ranks [OF assms] quantiles_unit by (intro map_cong) auto

lemma takeWhile_stops:
  "x \<in> set xs \<Longrightarrow> \<not> P x \<Longrightarrow> length (takeWhile P xs) < length xs"
  by (induction xs) auto

lemma rank_label_defined:
  assumes "i < length xs"
  shows "\<exists>a. cut_label (map (quantile (rank_first xs)) quantiles) [1, 2, 3, 4, 5]
               (Some (rank_first xs ! i)) = Some a"
proof -
  let ?n = "length xs"
  let ?r = "rank_first xs ! i"
  let ?bins = "map (\<lambda>q. Some (1 + q * rat_of_nat (?n - 1))) quantiles"
  have ne: "xs \<noteq> []" using assms by auto
  have r: "?r = of_nat (rank_pos xs i)"
    using assms by (simp add: rank_first_pos)
  from rank_pos_range [OF assms] have r1: "1 \<le> ?r" and rn: "?r \<le> of_nat ?n"
    unfolding r by simp_all
  have len: "length ?bins = 6" by (simp add: length_quantiles)
  have hd: "hd ?bins = Some 1" and neb: "?bins \<noteq> []"
    by (simp_all add: quantiles_def upt_rec)
  have "(1 :: rat) \<in> set quantiles" by (simp add: quantiles_def upt_rec)
  then have "Some (1 + 1 * rat_of_nat (?n - 1)) \<in> set ?bins" by auto
  moreover have "1 + 1 * rat_of_nat (?n - 1) = rat_of_nat ?n"
    using assms by (simp add: of_nat_diff)
  ultimately have last: "Some (rat_of_nat ?n) \<in> set ?bins" by simp
  have ids: "cut_ids ?bins ?r \<noteq> 0 \<and> cut_ids ?bins ?r \<noteq> length ?bins"
  proof (cases "?r = 1")
    case True
    then show ?thesis using hd neb len by (simp add: cut_ids_def)
  next
    case False
    with r1 have gt: "1 < ?r" by simp
    have ci: "cut_ids ?bins ?r = searchsorted ?bins ?r"
      using hd False by (auto simp: cut_ids_def)
    obtain bs where bs: "?bins = Some 1 # bs"
      using hd neb by (cases ?bins) auto
    have "edge_below ?r (Some 1)" using gt by (simp add: edge_below_def)
    then have "0 < searchsorted ?bins ?r"
      unfolding bs by (simp add: searchsorted_def)
    moreover have "\<not> edge_below ?r (Some (rat_of_nat ?n))"
      using rn by (simp add: edge_below_def)
    with last have "length (takeWhile (edge_below ?r) ?bins) < length ?bins"
      by (rule takeWhile_stops)
    ultimately show ?thesis unfolding ci by (simp add: searchsorted_def)
  qed
  then show ?thesis
    unfolding rank_edges [OF ne] by (simp add: cut_label_ids)
qed

lemma f_score_col_defined:
  assumes "f_score_col b = Inr f" and "i < length b"
  shows "length f = length b
       \<and> (\<exists>a. f ! i = Some a)
       \<and> f ! i = cut_label (map (quantile (rank_first (map frequency b))) quantiles)
                  [1, 2, 3, 4, 5] (Some (rank_first (map frequency b) ! i))"
proof -
  let ?rk = "rank_first (map frequency b)"
  from assms(1) have "qcut (map Some ?rk) [1, 2, 3, 4, 5] = Inr f"
    by (simp add: f_score_col_def)
  from qcut_Inr_edges [OF this]
  have f: "f = map (cut_label (map (quantile ?rk) quantiles) [1, 2, 3, 4, 5]) (map Some ?rk)"
    by (simp add: dropna_map_Some)
  have i: "i < length (map frequency b)" using assms(2) by simp
  have fi: "f ! i = cut_label (map (quantile ?rk) quantiles) [1, 2, 3, 4, 5] (Some (?rk ! i))"
    using assms(2) by (simp add: f length_rank_first)
  from rank_label_defined [OF i] fi show ?thesis
    by (simp add: f length_rank_first)
qed

subsection \<open>The example table, evaluated\<close>

lemma scenario_table:
  "rfm_table scenario
     = [\<lparr>rfm_customer_id = 1, last_purchase = Some (2024, 1, 5, 0), frequency = 1,
          monetary = 10, recency = Some 35\<rparr>,
        \<lparr>rfm_customer_id = 2, last_purchase = Some (2024, 2, 3, 0), frequency = 3,
          monetary = 25, recency = Some 6\<rparr>,
        \<lparr>rfm_customer_id = 3, last_purchase = Some (2024, 2, 9, 0), frequency = 1,
          monetary = 7, recency = Some 0\<rparr>]"
  by code_simp

lemma scenario_cohort_data:
  "cohort_data scenario
     = [(1, (2024, 1), (2024, 1)), (2, (2024, 1), (2024, 1)),
        (2, (2024, 1), (2024, 2)), (3, (2024, 2), (2024, 2))]"
  by (simp add: scenario_def cohort_data_def)

lemma scenario_retention:
  "cohort_retention scenario
     = \<lparr>index = [(2024, 1), (2024, 2)], columns = [(2024, 1), (2024, 2)],
        cells = [[2, 1], [0, 1]]\<rparr>"
  by (simp add: cohort_retention_def cohort_period_counts_def unstack_def scenario_cohort_data
      group_keys_def nunique_def Let_def numeral_2_eq_2)

lemma scenario_cohorts: "cohorts scenario = [((2024, 1), 2), ((2024, 2), 1)]"
  by (simp add: cohorts_def scenario_cohort_data group_keys_def nunique_def)

section \<open>The aggregation\<close>

text \<open>
  C2 (as the code has it). For a table with at least one record, the per-customer table
  has exactly one row for each customer id of the input (the ids of its rows are distinct
  and are the ids of the input), and in each row the recency is the whole days from the
  customer's latest purchase date to the latest purchase date of the whole input, the
  frequency is the sum of \<^verbatim>\<open>games_purchased\<close> over the customer's records wrapped to 64
  bits, which is the sum itself when that lies between \<open>-2^63\<close> and \<open>2^63 - 1\<close>, and the
  monetary value is the float64 sum of \<^verbatim>\<open>net_revenue\<close> over the customer's records in the
  order of the rows.
\<close>

theorem rfm_table_rows:
  assumes "rs \<noteq> []"
  shows "distinct (map rfm_customer_id (rfm_table rs))
       \<and> set (map rfm_customer_id (rfm_table rs)) = customer_id ` set rs
       \<and> (\<forall>row \<in> set (rfm_table rs).
            recency row
              = Some (timedelta_days (Max (purchase_date ` set rs))
                  (Max (purchase_date ` {r \<in> set rs. customer_id r = rfm_customer_id row})))
          \<and> frequency row
              = wrap_int64 (sum_mset (image_mset games_purchased
                  (filter_mset (\<lambda>r. customer_id r = rfm_customer_id row) (mset rs))))
          \<and> (- (2 ^ 63) \<le> sum_mset (image_mset games_purchased
                  (filter_mset (\<lambda>r. customer_id r = rfm_customer_id row) (mset rs)))
               \<and> sum_mset (image_mset games_purchased
                  (filter_mset (\<lambda>r. customer_id r = rfm_customer_id row) (mset rs))) < 2 ^ 63
               \<longrightarrow> frequency row
                     = sum_mset (image_mset games_purchased
                         (filter_mset (\<lambda>r. customer_id r = rfm_customer_id row) (mset rs))))
          \<and> monetary row
              = group_sum_float64 (map net_revenue
                  (filter (\<lambda>r. customer_id r = rfm_customer_id row) rs)))"
proof (intro conjI ballI)
  show "distinct (map rfm_customer_id (rfm_table rs))"
    by (simp add: rfm_table_ids)
  show "set (map rfm_customer_id (rfm_table rs)) = customer_id ` set rs"
    by (simp only: rfm_table_ids) simp
next
  fix row assume row: "row \<in> set (rfm_table rs)"
  let ?g = "filter (\<lambda>r. customer_id r = rfm_customer_id row) rs"
  let ?S = "sum_mset (image_mset games_purchased
              (filter_mset (\<lambda>r. customer_id r = rfm_customer_id row) (mset rs)))"
  note facts = rfm_table_row [OF row]
  from facts have "rfm_customer_id row \<in> customer_id ` set rs" by simp
  then have g: "map purchase_date ?g \<noteq> []"
    by (auto simp: filter_empty_conv)
  have last: "last_purchase row
      = Some (Max (purchase_date ` {r \<in> set rs. customer_id r = rfm_customer_id row}))"
    using facts series_max_Max [OF g] by simp
  have gm: "series_max (map purchase_date rs) = Some (Max (purchase_date ` set rs))"
    using assms series_max_Max [of "map purchase_date rs"] by simp
  show "recency row
          = Some (timedelta_days (Max (purchase_date ` set rs))
              (Max (purchase_date ` {r \<in> set rs. customer_id r = rfm_customer_id row})))"
    using facts last gm by simp
  show freq: "frequency row = wrap_int64 ?S"
    using facts by (simp only: group_sum_int64_def sum_list_filter_mset)
  show "- (2 ^ 63) \<le> ?S \<and> ?S < 2 ^ 63 \<longrightarrow> frequency row = ?S"
    unfolding freq by (simp add: wrap_int64_id)
  show "monetary row = group_sum_float64 (map net_revenue ?g)"
    using facts by simp
qed

theorem rfm_table_rows_witness:
  "scenario \<noteq> []
   \<and> map rfm_customer_id (rfm_table scenario) = [1, 2, 3]
   \<and> distinct (map rfm_customer_id (rfm_table scenario))
   \<and> set (map rfm_customer_id (rfm_table scenario)) = customer_id ` set scenario
   \<and> recency (rfm_table scenario ! 1)
         = Some (timedelta_days (Max (purchase_date ` set scenario))
             (Max (purchase_date ` {r \<in> set scenario. customer_id r = 2})))
   \<and> recency (rfm_table scenario ! 1) = Some 6
   \<and> frequency (rfm_table scenario ! 1)
         = wrap_int64 (sum_mset (image_mset games_purchased
             (filter_mset (\<lambda>r. customer_id r = 2) (mset scenario))))
   \<and> frequency (rfm_table scenario ! 1) = 3
   \<and> monetary (rfm_table scenario ! 1)
         = group_sum_float64 (map net_revenue (filter (\<lambda>r. customer_id r = 2) scenario))
   \<and> monetary (rfm_table scenario ! 1) = 25"
proof -
  have h: "scenario \<noteq> []" by (simp add: scenario_def)
  have row: "rfm_table scenario ! 1 \<in> set (rfm_table scenario)"
    and id: "rfm_customer_id (rfm_table scenario ! 1) = 2"
    and vals: "map rfm_customer_id (rfm_table scenario) = [1, 2, 3]"
      "recency (rfm_table scenario ! 1) = Some 6"
      "frequency (rfm_table scenario ! 1) = 3"
      "monetary (rfm_table scenario ! 1) = 25"
    by (simp_all add: scenario_table)
  from rfm_table_rows [OF h] row have
    "distinct (map rfm_customer_id (rfm_table scenario))"
    "set (map rfm_customer_id (rfm_table scenario)) = customer_id ` set scenario"
    "recency (rfm_table scenario ! 1)
       = Some (timedelta_days (Max (purchase_date ` set scenario))
           (Max (purchase_date ` {r \<in> set scenario.
              customer_id r = rfm_customer_id (rfm_table scenario ! 1)})))"
    "frequency (rfm_table scenario ! 1)
       = wrap_int64 (sum_mset (image_mset games_purchased
           (filter_mset (\<lambda>r. customer_id r = rfm_customer_id (rfm_table scenario ! 1))
              (mset scenario))))"
    "monetary (rfm_table scenario ! 1)
       = group_sum_float64 (map net_revenue
           (filter (\<lambda>r. customer_id r = rfm_customer_id (rfm_table scenario ! 1)) scenario))"
    by blast+
  then show ?thesis using h vals unfolding id by (intro conjI)
qed

text \<open>
  C2 as stated fails for the frequency: the group sum of an int64 column wraps. One
  customer with two records of \<open>2^62\<close> games each has the frequency \<open>-2^63\<close>, where the sum
  of \<^verbatim>\<open>games_purchased\<close> over the records is \<open>2^63\<close>.
\<close>

theorem frequency_wraps:
  "map frequency (rfm_table
       [\<lparr>customer_id = 1, purchase_date = (2024, 1, 5, 0), net_revenue = 10,
          games_purchased = 4611686018427387904\<rparr>,
        \<lparr>customer_id = 1, purchase_date = (2024, 1, 8, 0), net_revenue = 20,
          games_purchased = 4611686018427387904\<rparr>])
     = [- 9223372036854775808]
   \<and> sum_list (map games_purchased
       [\<lparr>customer_id = 1, purchase_date = (2024, 1, 5, 0), net_revenue = 10,
          games_purchased = 4611686018427387904\<rparr>,
        \<lparr>customer_id = 1, purchase_date = (2024, 1, 8, 0), net_revenue = 20,
          games_purchased = 4611686018427387904\<rparr>])
     = 9223372036854775808"
  by code_simp

text \<open>
  C8 (as the code has it). The script validates nothing and has no \<^verbatim>\<open>InvalidInput\<close>
  error: a record is aggregated whatever the sign of its amounts. Putting any record in
  front of a table gives a row for its customer whose frequency is the record's
  \<^verbatim>\<open>games_purchased\<close> added to the customer's sum over the rest, wrapped to 64 bits, and
  whose monetary value is the float64 sum of the record's \<^verbatim>\<open>net_revenue\<close> followed by the
  customer's other values.
\<close>

theorem rfm_table_adds_any_record:
  "\<exists>row \<in> set (rfm_table (r # rs)).
      rfm_customer_id row = customer_id r
    \<and> frequency row
        = wrap_int64 (games_purchased r
            + sum_mset (image_mset games_purchased
                (filter_mset (\<lambda>r'. customer_id r' = customer_id r) (mset rs))))
    \<and> monetary row
        = group_sum_float64 (net_revenue r
            # map net_revenue (filter (\<lambda>r'. customer_id r' = customer_id r) rs))"
proof -
  have "set (map rfm_customer_id (rfm_table (r # rs))) = customer_id ` set (r # rs)"
    by (rule rfm_table_id_set)
  then have "customer_id r \<in> set (map rfm_customer_id (rfm_table (r # rs)))"
    by simp
  then obtain row where row: "row \<in> set (rfm_table (r # rs))"
      and id: "rfm_customer_id row = customer_id r"
    by auto
  from rfm_table_row [OF row] id
  have "frequency row
          = wrap_int64 (games_purchased r
              + sum_list (map games_purchased (filter (\<lambda>r'. customer_id r' = customer_id r) rs)))"
    and "monetary row
          = group_sum_float64 (net_revenue r
              # map net_revenue (filter (\<lambda>r'. customer_id r' = customer_id r) rs))"
    by (simp_all add: group_sum_int64_def)
  with row id show ?thesis
    by (auto simp only: sum_list_filter_mset)
qed

text \<open>
  C8 as stated fails: on a table of two customers where the second record has the
  negative \<^verbatim>\<open>net_revenue\<close> -20, the whole computation returns a table, with the monetary
  value -20 in it.
\<close>

theorem negative_revenue_accepted:
  "net_revenue \<lparr>customer_id = 2, purchase_date = (2024, 1, 8, 0), net_revenue = - 20,
      games_purchased = 1\<rparr> < 0
   \<and> rfm_data
       [\<lparr>customer_id = 1, purchase_date = (2024, 1, 5, 0), net_revenue = 10, games_purchased = 1\<rparr>,
        \<lparr>customer_id = 2, purchase_date = (2024, 1, 8, 0), net_revenue = - 20, games_purchased = 1\<rparr>]
     = Inr [\<lparr>rfm_customer_id = 1, last_purchase = Some (2024, 1, 5, 0), frequency = 1,
              monetary = 10, recency = Some 3, r_score = Some 1, f_score = Some 1,
              m_score = Some 5, rfm_segment = ''Potential''\<rparr>,
            \<lparr>rfm_customer_id = 2, last_purchase = Some (2024, 1, 8, 0), frequency = 1,
              monetary = - 20, recency = Some 0, r_score = Some 5, f_score = Some 5,
              m_score = Some 1, rfm_segment = ''Potential''\<rparr>]"
  by code_simp

text \<open>
  C9 (as the code has it). On a table of no records the aggregation returns an empty
  per-customer table, and the cohort sizes, the cohort matrix and the percentages are
  empty.
\<close>

theorem empty_input_tables:
  "rfm_table [] = []
   \<and> cohorts [] = []
   \<and> cohort_retention [] = \<lparr>index = [], columns = [], cells = []\<rparr>
   \<and> cohort_retention_pct [] = \<lparr>index = [], columns = [], cells = []\<rparr>"
  by (simp add: rfm_table_def group_keys_def cohorts_def cohort_data_def cohort_retention_def
      cohort_retention_pct_def cohort_period_counts_def unstack_def)

text \<open>
  C9 as stated fails for the RFM table: on no records the scoring raises
  \<^verbatim>\<open>ValueError\<close>, since the six quantile edges of an empty column are all NaN, one edge
  is left when duplicates are dropped, and five labels do not fit.
\<close>

theorem empty_input_rfm_raises: "rfm_data [] = Inl ValueError"
  by code_simp

section \<open>The scores\<close>

text \<open>
  C3 (as the code has it). The script has no neutral score. When all customers have the
  same value \<open>v\<close> of recency or of monetary value, the six quantile edges all equal \<open>v\<close>
  and dropping the duplicates leaves the one edge \<open>v\<close>. When all customers have the same
  frequency, what is binned are the ranks, and \<^verbatim>\<open>rank(method='first')\<close> gives the rows
  the distinct ranks 1 to \<open>n\<close> in the order of the table.
\<close>

theorem single_value_dimension:
  assumes "xs \<noteq> []" and "\<forall>x \<in> set xs. x = v" and "\<forall>x \<in> set fs. x = w"
  shows "map (quantile xs) quantiles = replicate 6 (Some v)
       \<and> unique (map (quantile xs) quantiles) = [Some v]
       \<and> rank_first fs = map (\<lambda>i. of_nat (i + 1)) [0..<length fs]"
proof -
  have "map (quantile xs) quantiles = map (\<lambda>q. Some v) quantiles"
    using quantile_const [OF assms(1,2)] quantiles_unit by (intro map_cong) auto
  then have edges: "map (quantile xs) quantiles = replicate 6 (Some v)"
    by (simp add: map_replicate_const length_quantiles)
  moreover have "unique (map (quantile xs) quantiles) = [Some v]"
    unfolding edges by (rule unique_replicate) simp
  ultimately show ?thesis using rank_first_const [OF assms(3)] by simp
qed

theorem single_value_dimension_witness:
  "[70 :: rat] \<noteq> []
   \<and> map (quantile [70]) quantiles = replicate 6 (Some 70)
   \<and> unique (map (quantile [70]) quantiles) = [Some 70]
   \<and> rank_first [1, 1 :: int] = [1, 2]"
proof -
  have h: "[70 :: rat] \<noteq> []" by simp
  have a: "\<forall>x \<in> set [70 :: rat]. x = 70" by simp
  have b: "\<forall>x \<in> set [1, 1 :: int]. x = 1" by simp
  have r: "map (\<lambda>i. of_nat (i + 1)) [0..<length [1, 1 :: int]] = [1, 2 :: rat]"
    by (simp add: upt_rec)
  from single_value_dimension [OF h a b]
  have "map (quantile [70]) quantiles = replicate 6 (Some 70)"
    and "unique (map (quantile [70]) quantiles) = [Some 70]"
    and "rank_first [1, 1 :: int] = map (\<lambda>i. of_nat (i + 1)) [0..<length [1, 1 :: int]]"
    by blast+
  then show ?thesis using h unfolding r by (intro conjI)
qed

text \<open>
  C3 as stated fails. Two customers with the same frequency 1 do not both get the score
  3: the first gets 1 and the second 5. And for one customer with ten equal records the
  score of the monetary value is not computed: \<^verbatim>\<open>qcut\<close> raises \<^verbatim>\<open>ValueError\<close>.
\<close>

theorem no_neutral_score:
  "map frequency (rfm_table
       [\<lparr>customer_id = 1, purchase_date = (2024, 1, 5, 0), net_revenue = 10, games_purchased = 1\<rparr>,
        \<lparr>customer_id = 2, purchase_date = (2024, 1, 8, 0), net_revenue = 20, games_purchased = 1\<rparr>])
     = [1, 1]
   \<and> f_score_col (rfm_table
       [\<lparr>customer_id = 1, purchase_date = (2024, 1, 5, 0), net_revenue = 10, games_purchased = 1\<rparr>,
        \<lparr>customer_id = 2, purchase_date = (2024, 1, 8, 0), net_revenue = 20, games_purchased = 1\<rparr>])
     = Inr [Some 1, Some 5]
   \<and> map monetary (rfm_table (replicate 10
        \<lparr>customer_id = 1, purchase_date = (2024, 1, 5, 0), net_revenue = 7, games_purchased = 1\<rparr>))
     = [70]
   \<and> m_score_col (rfm_table (replicate 10
        \<lparr>customer_id = 1, purchase_date = (2024, 1, 5, 0), net_revenue = 7, games_purchased = 1\<rparr>))
     = Inl ValueError"
  by code_simp

text \<open>
  C6 fails on the code. Three customers with the recencies 0, 0 and 10 days, the
  frequencies 1, 2, 3 and the monetary values 10, 20, 30 have two or more distinct values
  on every dimension. The quantile edges of the recency are 0, 0, 0, 2, 6, 10; four are
  left when duplicates are dropped, the five labels do not fit and \<^verbatim>\<open>qcut\<close> raises
  \<^verbatim>\<open>ValueError\<close>: no customer gets a score.
\<close>

theorem duplicate_edges_raise:
  "map (\<lambda>row. (recency row, frequency row, monetary row))
     (rfm_table
       [\<lparr>customer_id = 1, purchase_date = (2024, 1, 11, 0), net_revenue = 10, games_purchased = 1\<rparr>,
        \<lparr>customer_id = 2, purchase_date = (2024, 1, 11, 0), net_revenue = 20, games_purchased = 2\<rparr>,
        \<lparr>customer_id = 3, purchase_date = (2024, 1, 1, 0), net_revenue = 30, games_purchased = 3\<rparr>])
     = [(Some 0, 1, 10), (Some 0, 2, 20), (Some 10, 3, 30)]
   \<and> map (quantile [0, 0, 10]) quantiles
     = [Some 0, Some 0, Some 0, Some 2, Some 6, Some 10]
   \<and> r_score_col
     (rfm_table
       [\<lparr>customer_id = 1, purchase_date = (2024, 1, 11, 0), net_revenue = 10, games_purchased = 1\<rparr>,
        \<lparr>customer_id = 2, purchase_date = (2024, 1, 11, 0), net_revenue = 20, games_purchased = 2\<rparr>,
        \<lparr>customer_id = 3, purchase_date = (2024, 1, 1, 0), net_revenue = 30, games_purchased = 3\<rparr>])
     = Inl ValueError
   \<and> rfm_data
       [\<lparr>customer_id = 1, purchase_date = (2024, 1, 11, 0), net_revenue = 10, games_purchased = 1\<rparr>,
        \<lparr>customer_id = 2, purchase_date = (2024, 1, 11, 0), net_revenue = 20, games_purchased = 2\<rparr>,
        \<lparr>customer_id = 3, purchase_date = (2024, 1, 1, 0), net_revenue = 30, games_purchased = 3\<rparr>]
     = Inl ValueError"
  by code_simp

text \<open>
  C10. In the column of frequency scores, of two customers with the same frequency the one
  with the smaller customer id has an \<^verbatim>\<open>f_score\<close> less than or equal to the other's: the rows
  of the table stand in the order of the customer ids, \<^verbatim>\<open>rank(method='first')\<close> ranks equal
  frequencies in the order of the rows, and the bin of a value is monotone in the value,
  whatever the six edges are (second part of the statement). The column is the same for
  every order of the same records.
\<close>

theorem f_score_ties_by_customer_id:
  assumes "f_score_col (rfm_table rs) = Inr f"
    and "i < length (rfm_table rs)" and "j < length (rfm_table rs)"
    and "frequency (rfm_table rs ! i) = frequency (rfm_table rs ! j)"
    and "rfm_customer_id (rfm_table rs ! i) < rfm_customer_id (rfm_table rs ! j)"
    and "mset rs' = mset rs"
  shows "(\<exists>a b. f ! i = Some a \<and> f ! j = Some b \<and> a \<le> b)
       \<and> (\<forall>bins a b. length bins = 6
              \<and> cut_label bins [1, 2, 3, 4, 5]
                    (Some (rank_first (map frequency (rfm_table rs)) ! i)) = Some a
              \<and> cut_label bins [1, 2, 3, 4, 5]
                    (Some (rank_first (map frequency (rfm_table rs)) ! j)) = Some b
              \<longrightarrow> a \<le> b)
       \<and> f_score_col (rfm_table rs') = Inr f"
proof (intro conjI allI impI)
  let ?b = "rfm_table rs"
  let ?rk = "rank_first (map frequency ?b)"
  let ?bins = "map (quantile ?rk) quantiles"
  from assms(2,3,5) have ij: "i < j" by (rule rfm_table_ids_increasing)
  have "map frequency ?b ! i = map frequency ?b ! j"
    using assms(2,3,4) by simp
  with ij assms(3) have "?rk ! i < ?rk ! j"
    by (intro rank_first_tie) simp_all
  then have le: "?rk ! i \<le> ?rk ! j" by simp
  from f_score_col_defined [OF assms(1,2)] obtain a where a: "f ! i = Some a"
      and fi: "f ! i = cut_label ?bins [1, 2, 3, 4, 5] (Some (?rk ! i))"
    by blast
  from f_score_col_defined [OF assms(1,3)] obtain b where b: "f ! j = Some b"
      and fj: "f ! j = cut_label ?bins [1, 2, 3, 4, 5] (Some (?rk ! j))"
    by blast
  have bins: "length ?bins = 6" by (simp add: length_quantiles)
  have "a \<le> b"
    using le bins a [unfolded fi] b [unfolded fj] by (rule cut_label_mono)
  with a b show "\<exists>a b. f ! i = Some a \<and> f ! j = Some b \<and> a \<le> b" by simp
  fix edges :: "rat option list" and a' b' :: int
  assume e: "length edges = 6
      \<and> cut_label edges [1, 2, 3, 4, 5] (Some (?rk ! i)) = Some a'
      \<and> cut_label edges [1, 2, 3, 4, 5] (Some (?rk ! j)) = Some b'"
  then have "length edges = 6"
    and "cut_label edges [1, 2, 3, 4, 5] (Some (?rk ! i)) = Some a'"
    and "cut_label edges [1, 2, 3, 4, 5] (Some (?rk ! j)) = Some b'"
    by simp_all
  with le show "a' \<le> b'" by (rule cut_label_mono)
next
  show "f_score_col (rfm_table rs') = Inr f"
    using score_cols_perm(2) [OF assms(6)] assms(1) by simp
qed

theorem f_score_ties_by_customer_id_witness:
  "f_score_col (rfm_table tied_pair) = Inr [Some 1, Some 5]
   \<and> (0 :: nat) < length (rfm_table tied_pair) \<and> (1 :: nat) < length (rfm_table tied_pair)
   \<and> frequency (rfm_table tied_pair ! 0) = frequency (rfm_table tied_pair ! 1)
   \<and> rfm_customer_id (rfm_table tied_pair ! 0) < rfm_customer_id (rfm_table tied_pair ! 1)
   \<and> mset (rev tied_pair) = mset tied_pair
   \<and> (\<exists>a b. [Some 1, Some 5] ! 0 = Some a \<and> [Some 1, Some 5] ! 1 = Some b \<and> a \<le> (b :: int))
   \<and> f_score_col (rfm_table (rev tied_pair)) = Inr [Some 1, Some 5]"
proof -
  have f: "f_score_col (rfm_table tied_pair) = Inr [Some 1, Some 5]" by code_simp
  have i: "0 < length (rfm_table tied_pair)" and j: "1 < length (rfm_table tied_pair)"
    and fr: "frequency (rfm_table tied_pair ! 0) = frequency (rfm_table tied_pair ! 1)"
    and id: "rfm_customer_id (rfm_table tied_pair ! 0) < rfm_customer_id (rfm_table tied_pair ! 1)"
    by code_simp+
  have p: "mset (rev tied_pair) = mset tied_pair" by simp
  from f_score_ties_by_customer_id [OF f i j fr id p]
  have "\<exists>a b. [Some 1, Some 5] ! 0 = Some a \<and> [Some 1, Some 5] ! 1 = Some b \<and> a \<le> (b :: int)"
    and "f_score_col (rfm_table (rev tied_pair)) = Inr [Some 1, Some 5]"
    by blast+
  with f i j fr id p show ?thesis
    by (intro conjI)
qed

section \<open>Cohort invariants\<close>

text \<open>
  C4. For every cohort \<open>c\<close> of the cohort matrix, the cell at row \<open>c\<close> and column \<open>c\<close> is the
  size of the cohort: every customer of a cohort is counted in the month of the first
  purchase.
\<close>

theorem cohort_own_month_retained:
  assumes "c \<in> set (index (cohort_retention rs))"
  shows "loc (cohort_retention rs) c c = map_of (cohorts rs) c
       \<and> map_of (cohorts rs) c
           = Some (card {k. \<exists>p. (k, c, p) \<in> set (cohort_data rs)})"
proof -
  let ?d = "set (cohort_data rs)"
  from assms obtain k p where kp: "(k, c, p) \<in> ?d"
    by (auto simp: retention_index)
  then have own: "(k, c, c) \<in> ?d" by (rule cohort_data_own_month)
  then have col: "c \<in> set (columns (cohort_retention rs))"
    by (force simp: retention_columns)
  have key: "(c, c) \<in> snd ` ?d" using own by force
  have sets: "fst ` {row \<in> ?d. snd row = (c, c)} = fst ` {row \<in> ?d. fst (snd row) = c}"
  proof (intro equalityI subsetI)
    fix x assume "x \<in> fst ` {row \<in> ?d. snd row = (c, c)}"
    then show "x \<in> fst ` {row \<in> ?d. fst (snd row) = c}" by auto
  next
    fix x assume "x \<in> fst ` {row \<in> ?d. fst (snd row) = c}"
    then obtain q where "(x, c, q) \<in> ?d" by auto
    then have "(x, c, c) \<in> ?d" by (rule cohort_data_own_month)
    then show "x \<in> fst ` {row \<in> ?d. snd row = (c, c)}" by force
  qed
  have size: "map_of (cohorts rs) c = Some (card (fst ` {row \<in> ?d. fst (snd row) = c}))"
    using kp by (force simp: cohorts_lookup)
  have "fst ` {row \<in> ?d. fst (snd row) = c} = {k. \<exists>p. (k, c, p) \<in> ?d}"
    by force
  with size have size': "map_of (cohorts rs) c = Some (card {k. \<exists>p. (k, c, p) \<in> ?d})"
    by simp
  have "loc (cohort_retention rs) c c = Some (card (fst ` {row \<in> ?d. snd row = (c, c)}))"
    using key by (simp add: retention_loc [OF assms col] counts_lookup)
  with sets size size' show ?thesis by simp
qed

theorem cohort_own_month_retained_witness:
  "(2024, 1) \<in> set (index (cohort_retention scenario))
   \<and> loc (cohort_retention scenario) (2024, 1) (2024, 1) = map_of (cohorts scenario) (2024, 1)
   \<and> map_of (cohorts scenario) (2024, 1) = Some 2"
proof -
  have h: "(2024, 1) \<in> set (index (cohort_retention scenario))"
    by (simp add: scenario_retention)
  have "map_of (cohorts scenario) (2024, 1) = Some 2"
    by (simp add: scenario_cohorts)
  with h cohort_own_month_retained [OF h] show ?thesis by simp
qed

text \<open>
  C5. For a cohort month \<open>c\<close> and a period month \<open>p\<close> before it, no pair \<open>(c, p)\<close> occurs
  in the grouped counts, and where both are labels of the matrix the cell is 0.
\<close>

theorem no_retention_before_cohort:
  assumes "p < c"
  shows "map_of (cohort_period_counts rs) (c, p) = None
       \<and> (c \<in> set (index (cohort_retention rs)) \<and> p \<in> set (columns (cohort_retention rs))
            \<longrightarrow> loc (cohort_retention rs) c p = Some 0)"
proof -
  have "(c, p) \<notin> snd ` set (cohort_data rs)"
  proof
    assume "(c, p) \<in> snd ` set (cohort_data rs)"
    then obtain k where "(k, c, p) \<in> set (cohort_data rs)" by force
    then have "c \<le> p" by (rule cohort_data_period_ge)
    with assms show False by simp
  qed
  then have none: "map_of (cohort_period_counts rs) (c, p) = None"
    by (simp add: counts_lookup)
  then show ?thesis by (simp add: retention_loc)
qed

theorem no_retention_before_cohort_witness:
  "((2024, 1) :: period) < (2024, 2)
   \<and> (2024, 2) \<in> set (index (cohort_retention scenario))
   \<and> (2024, 1) \<in> set (columns (cohort_retention scenario))
   \<and> map_of (cohort_period_counts scenario) ((2024, 2), (2024, 1)) = None
   \<and> loc (cohort_retention scenario) (2024, 2) (2024, 1) = Some 0"
proof -
  have h: "((2024, 1) :: period) < (2024, 2)" by simp
  have i: "(2024, 2) \<in> set (index (cohort_retention scenario))"
    and c: "(2024, 1) \<in> set (columns (cohort_retention scenario))"
    by (simp_all add: scenario_retention)
  from h i c no_retention_before_cohort [OF h, of scenario] show ?thesis by simp
qed

section \<open>The order of the records\<close>

text \<open>
  C7 (as the code has it). Two tables with the same records in any order give the same
  cohort sizes, cohort matrix and percentages, and RFM tables with the same customer ids,
  last purchase dates, frequencies and recencies, hence the same recency scores and
  frequency scores, or the same exception from either. The monetary value is a float64
  sum taken in the order of the rows and is not part of this.
\<close>

theorem engines_order_irrelevant:
  assumes "mset rs = mset rs'"
  shows "cohorts rs = cohorts rs'
       \<and> cohort_retention rs = cohort_retention rs'
       \<and> cohort_retention_pct rs = cohort_retention_pct rs'
       \<and> map rfm_customer_id (rfm_table rs) = map rfm_customer_id (rfm_table rs')
       \<and> map last_purchase (rfm_table rs) = map last_purchase (rfm_table rs')
       \<and> map frequency (rfm_table rs) = map frequency (rfm_table rs')
       \<and> map recency (rfm_table rs) = map recency (rfm_table rs')
       \<and> r_score_col (rfm_table rs) = r_score_col (rfm_table rs')
       \<and> f_score_col (rfm_table rs) = f_score_col (rfm_table rs')"
  using rfm_table_perm [OF assms] score_cols_perm [OF assms]
    cohort_engine_set [OF mset_eq_setD [OF assms]]
  by simp

theorem engines_order_irrelevant_witness:
  "mset scenario = mset (rev scenario)
   \<and> scenario \<noteq> rev scenario
   \<and> cohorts scenario = cohorts (rev scenario)
   \<and> cohort_retention scenario = cohort_retention (rev scenario)
   \<and> cohort_retention_pct scenario = cohort_retention_pct (rev scenario)
   \<and> map rfm_customer_id (rfm_table scenario) = map rfm_customer_id (rfm_table (rev scenario))
   \<and> map last_purchase (rfm_table scenario) = map last_purchase (rfm_table (rev scenario))
   \<and> map frequency (rfm_table scenario) = map frequency (rfm_table (rev scenario))
   \<and> map recency (rfm_table scenario) = map recency (rfm_table (rev scenario))
   \<and> r_score_col (rfm_table scenario) = r_score_col (rfm_table (rev scenario))
   \<and> f_score_col (rfm_table scenario) = f_score_col (rfm_table (rev scenario))"
proof -
  have h: "mset scenario = mset (rev scenario)" by simp
  have "scenario \<noteq> rev scenario" by (simp add: scenario_def)
  with h engines_order_irrelevant [OF h] show ?thesis by (intro conjI) simp_all
qed

text \<open>
  C7 as stated fails for the RFM table. Customer 1 has three purchases of 49.54, 44.95 and
  65.16 (the float64 numbers nearest to them), customer 2 one purchase of 20. With the
  rows of customer 1 in the order 49.54, 44.95, 65.16 the monetary value is the float64
  nearest to 159.65; with the last two rows exchanged it is the next float64 below,
  159.64999999999998. Both tables are computed, and they differ.
\<close>

theorem monetary_depends_on_order:
  "mset
       [\<lparr>customer_id = 1, purchase_date = (2024, 1, 5, 0),
          net_revenue = float64 (4954 / 100), games_purchased = 1\<rparr>,
        \<lparr>customer_id = 1, purchase_date = (2024, 1, 6, 0),
          net_revenue = float64 (4495 / 100), games_purchased = 1\<rparr>,
        \<lparr>customer_id = 1, purchase_date = (2024, 1, 7, 0),
          net_revenue = float64 (6516 / 100), games_purchased = 1\<rparr>,
        \<lparr>customer_id = 2, purchase_date = (2024, 1, 10, 0),
          net_revenue = 20, games_purchased = 1\<rparr>]
     = mset
       [\<lparr>customer_id = 1, purchase_date = (2024, 1, 5, 0),
          net_revenue = float64 (4954 / 100), games_purchased = 1\<rparr>,
        \<lparr>customer_id = 1, purchase_date = (2024, 1, 7, 0),
          net_revenue = float64 (6516 / 100), games_purchased = 1\<rparr>,
        \<lparr>customer_id = 1, purchase_date = (2024, 1, 6, 0),
          net_revenue = float64 (4495 / 100), games_purchased = 1\<rparr>,
        \<lparr>customer_id = 2, purchase_date = (2024, 1, 10, 0),
          net_revenue = 20, games_purchased = 1\<rparr>]
   \<and> rfm_data
       [\<lparr>customer_id = 1, purchase_date = (2024, 1, 5, 0),
          net_revenue = float64 (4954 / 100), games_purchased = 1\<rparr>,
        \<lparr>customer_id = 1, purchase_date = (2024, 1, 6, 0),
          net_revenue = float64 (4495 / 100), games_purchased = 1\<rparr>,
        \<lparr>customer_id = 1, purchase_date = (2024, 1, 7, 0),
          net_revenue = float64 (6516 / 100), games_purchased = 1\<rparr>,
        \<lparr>customer_id = 2, purchase_date = (2024, 1, 10, 0),
          net_revenue = 20, games_purchased = 1\<rparr>]
     = Inr [\<lparr>rfm_customer_id = 1, last_purchase = Some (2024, 1, 7, 0), frequency = 3,
              monetary = float64 (15965 / 100), recency = Some 3,
              r_score = Some 1, f_score = Some 5, m_score = Some 5,
              rfm_segment = ''Churned''\<rparr>,
            \<lparr>rfm_customer_id = 2, last_purchase = Some (2024, 1, 10, 0), frequency = 1,
              monetary = 20, recency = Some 0, r_score = Some 5, f_score = Some 1,
              m_score = Some 1, rfm_segment = ''At Risk''\<rparr>]
   \<and> rfm_data
       [\<lparr>customer_id = 1, purchase_date = (2024, 1, 5, 0),
          net_revenue = float64 (4954 / 100), games_purchased = 1\<rparr>,
        \<lparr>customer_id = 1, purchase_date = (2024, 1, 7, 0),
          net_revenue = float64 (6516 / 100), games_purchased = 1\<rparr>,
        \<lparr>customer_id = 1, purchase_date = (2024, 1, 6, 0),
          net_revenue = float64 (4495 / 100), games_purchased = 1\<rparr>,
        \<lparr>customer_id = 2, purchase_date = (2024, 1, 10, 0),
          net_revenue = 20, games_purchased = 1\<rparr>]
     = Inr [\<lparr>rfm_customer_id = 1, last_purchase = Some (2024, 1, 7, 0), frequency = 3,
              monetary = float64 (15965 / 100) - 1 / 2 ^ 45, recency = Some 3,
              r_score = Some 1, f_score = Some 5, m_score = Some 5,
              rfm_segment = ''Churned''\<rparr>,
            \<lparr>rfm_customer_id = 2, last_purchase = Some (2024, 1, 10, 0), frequency = 1,
              monetary = 20, recency = Some 0, r_score = Some 5, f_score = Some 1,
              m_score = Some 1, rfm_segment = ''At Risk''\<rparr>]
   \<and> float64 (15965 / 100) \<noteq> float64 (15965 / 100) - 1 / 2 ^ 45"
proof (intro conjI)
  show "mset
       [\<lparr>customer_id = 1, purchase_date = (2024, 1, 5, 0),
          net_revenue = float64 (4954 / 100), games_purchased = 1\<rparr>,
        \<lparr>customer_id = 1, purchase_date = (2024, 1, 6, 0),
          net_revenue = float64 (4495 / 100), games_purchased = 1\<rparr>,
        \<lparr>customer_id = 1, purchase_date = (2024, 1, 7, 0),
          net_revenue = float64 (6516 / 100), games_purchased = 1\<rparr>,
        \<lparr>customer_id = 2, purchase_date = (2024, 1, 10, 0),
          net_revenue = 20, games_purchased = 1\<rparr>]
     = mset
       [\<lparr>customer_id = 1, purchase_date = (2024, 1, 5, 0),
          net_revenue = float64 (4954 / 100), games_purchased = 1\<rparr>,
        \<lparr>customer_id = 1, purchase_date = (2024, 1, 7, 0),
          net_revenue = float64 (6516 / 100), games_purchased = 1\<rparr>,
        \<lparr>customer_id = 1, purchase_date = (2024, 1, 6, 0),
          net_revenue = float64 (4495 / 100), games_purchased = 1\<rparr>,
        \<lparr>customer_id = 2, purchase_date = (2024, 1, 10, 0),
          net_revenue = 20, games_purchased = 1\<rparr>]"
    by simp
  show "rfm_data
       [\<lparr>customer_id = 1, purchase_date = (2024, 1, 5, 0),
          net_revenue = float64 (4954 / 100), games_purchased = 1\<rparr>,
        \<lparr>customer_id = 1, purchase_date = (2024, 1, 6, 0),
          net_revenue = float64 (4495 / 100), games_purchased = 1\<rparr>,
        \<lparr>customer_id = 1, purchase_date = (2024, 1, 7, 0),
          net_revenue = float64 (6516 / 100), games_purchased = 1\<rparr>,
        \<lparr>customer_id = 2, purchase_date = (2024, 1, 10, 0),
          net_revenue = 20, games_purchased = 1\<rparr>]
     = Inr [\<lparr>rfm_customer_id = 1, last_purchase = Some (2024, 1, 7, 0), frequency = 3,
              monetary = float64 (15965 / 100), recency = Some 3,
              r_score = Some 1, f_score = Some 5, m_score = Some 5,
              rfm_segment = ''Churned''\<rparr>,
            \<lparr>rfm_customer_id = 2, last_purchase = Some (2024, 1, 10, 0), frequency = 1,
              monetary = 20, recency = Some 0, r_score = Some 5, f_score = Some 1,
              m_score = Some 1, rfm_segment = ''At Risk''\<rparr>]"
    by code_simp
  show "rfm_data
       [\<lparr>customer_id = 1, purchase_date = (2024, 1, 5, 0),
          net_revenue = float64 (4954 / 100), games_purchased = 1\<rparr>,
        \<lparr>customer_id = 1, purchase_date = (2024, 1, 7, 0),
          net_revenue = float64 (6516 / 100), games_purchased = 1\<rparr>,
        \<lparr>customer_id = 1, purchase_date = (2024, 1, 6, 0),
          net_revenue = float64 (4495 / 100), games_purchased = 1\<rparr>,
        \<lparr>customer_id = 2, purchase_date = (2024, 1, 10, 0),
          net_revenue = 20, games_purchased = 1\<rparr>]
     = Inr [\<lparr>rfm_customer_id = 1, last_purchase = Some (2024, 1, 7, 0), frequency = 3,
              monetary = float64 (15965 / 100) - 1 / 2 ^ 45, recency = Some 3,
              r_score = Some 1, f_score = Some 5, m_score = Some 5,
              rfm_segment = ''Churned''\<rparr>,
            \<lparr>rfm_customer_id = 2, last_purchase = Some (2024, 1, 10, 0), frequency = 1,
              monetary = 20, recency = Some 0, r_score = Some 5, f_score = Some 1,
              m_score = Some 1, rfm_segment = ''At Risk''\<rparr>]"
    by code_simp
  show "float64 (15965 / 100) \<noteq> float64 (15965 / 100) - 1 / 2 ^ 45"
    by simp
qed

end
